theory Spec2Isabelle
  imports Main "HOL-Library.Multiset"
begin

section \<open>Text primitives of the host language\<close>

text \<open>
  The program is \<^verbatim>\<open>xy_table.py\<close>. Its strings are modelled as \<^typ>\<open>string\<close>
  (lists of byte characters), so the text operations below are the ASCII readings of
  Python's \<^verbatim>\<open>str.strip\<close>, \<^verbatim>\<open>str.lower\<close>, \<^verbatim>\<open>in\<close>, \<^verbatim>\<open>str.split\<close> and
  \<^verbatim>\<open>str.replace\<close>. A slice \<^verbatim>\<open>s[n:]\<close> is \<^term>\<open>drop n s\<close> and \<^verbatim>\<open>s[:n]\<close> is
  \<^term>\<open>take n s\<close>.
\<close>

abbreviation newline :: char where
  "newline \<equiv> CHR 0x0A"

definition is_space :: "char \<Rightarrow> bool" where
  "is_space c = (c = CHR 0x20 \<or> c = CHR 0x09 \<or> c = CHR 0x0A \<or> c = CHR 0x0B \<or> c = CHR 0x0C
     \<or> c = CHR 0x0D \<or> c = CHR 0x1C \<or> c = CHR 0x1D \<or> c = CHR 0x1E \<or> c = CHR 0x1F)"

definition strip :: "string \<Rightarrow> string" where
  "strip s = rev (dropWhile is_space (rev (dropWhile is_space s)))"

definition lower_char :: "char \<Rightarrow> char" where
  "lower_char c =
     (case map_of (zip ''ABCDEFGHIJKLMNOPQRSTUVWXYZ'' ''abcdefghijklmnopqrstuvwxyz'') c of
        Some d \<Rightarrow> d
      | None \<Rightarrow> c)"

definition lower :: "string \<Rightarrow> string" where
  "lower s = map lower_char s"

fun starts_with :: "string \<Rightarrow> string \<Rightarrow> bool" where
  "starts_with [] s = True"
| "starts_with (p # ps) [] = False"
| "starts_with (p # ps) (c # cs) = (p = c \<and> starts_with ps cs)"

text \<open>\<^verbatim>\<open>sub in s\<close> for two strings: \<^verbatim>\<open>sub\<close> occurs in \<^verbatim>\<open>s\<close> as a contiguous run.\<close>

fun contains :: "string \<Rightarrow> string \<Rightarrow> bool" where
  "contains sub [] = (sub = [])"
| "contains sub (c # cs) = (starts_with sub (c # cs) \<or> contains sub cs)"

text \<open>\<^verbatim>\<open>s.split(sep)\<close> for a one-character separator: never the empty list.\<close>

fun split_on :: "char \<Rightarrow> string \<Rightarrow> string list" where
  "split_on sep [] = [[]]"
| "split_on sep (c # cs) =
     (if c = sep then [] # split_on sep cs
      else (c # hd (split_on sep cs)) # tl (split_on sep cs))"

text \<open>\<^verbatim>\<open>s.split()\<close>: the maximal runs of non-space characters.\<close>

fun split_ws :: "string \<Rightarrow> string list" where
  "split_ws [] = []"
| "split_ws (c # cs) =
     (if is_space c then split_ws cs
      else (case cs of
              [] \<Rightarrow> [[c]]
            | d # ds \<Rightarrow> if is_space d then [c] # split_ws cs
                       else (c # hd (split_ws cs)) # tl (split_ws cs)))"

text \<open>\<^verbatim>\<open>s.replace(sub, '')\<close> for a non-empty \<^verbatim>\<open>sub\<close>: occurrences are removed left to right.\<close>

fun replace_del :: "string \<Rightarrow> string \<Rightarrow> string" where
  "replace_del sub [] = []"
| "replace_del sub (c # cs) =
     (if sub \<noteq> [] \<and> starts_with sub (c # cs) then replace_del sub (drop (length sub - 1) cs)
      else c # replace_del sub cs)"

text \<open>
  The lines of a text file as \<^verbatim>\<open>readline\<close> returns them in text mode: a line ends at a
  line feed, at a carriage return, or at the pair of them, and comes with the terminator
  \<^verbatim>\<open>\\n\<close> in each case.
\<close>

fun file_lines :: "string \<Rightarrow> string list" where
  "file_lines [] = []"
| "file_lines [c] = (if c = newline \<or> c = CHR 0x0D then [[newline]] else [[c]])"
| "file_lines (c # d # ds) =
     (if c = newline then [newline] # file_lines (d # ds)
      else if c = CHR 0x0D then
        [newline] # (if d = newline then file_lines ds else file_lines (d # ds))
      else (case file_lines (d # ds) of
              [] \<Rightarrow> [[c]]
            | l # ls \<Rightarrow> (c # l) # ls))"

section \<open>Exceptions\<close>

datatype exn = ValueError | IndexError | OSError | ConnectionError

section \<open>The path compiler: \<^verbatim>\<open>dxf_to_gcode\<close>\<close>

text \<open>
  Coordinates are Python floats. The model takes them from a linearly ordered type with
  a zero (the arrays start as zeros), and takes the two library conversions as
  parameters: \<open>pf\<close> is \<^verbatim>\<open>float(text)\<close>, \<^term>\<open>None\<close> where it raises ValueError, and
  \<open>fmt\<close> is \<^verbatim>\<open>str(round(x, 2))\<close>. Not-a-number values are outside the model, and
  the values Python compares equal (the initial integer \<^verbatim>\<open>0\<close>, \<^verbatim>\<open>0.0\<close> and \<^verbatim>\<open>-0.0\<close>) are one
  value of the model. The variable \<^verbatim>\<open>count\<close> is never read and the two \<^verbatim>\<open>print\<close> calls
  only write to the console; neither is modelled.

  The open file is the list of lines still to be read; at the end of the file
  \<^verbatim>\<open>readline\<close> returns the empty string, for ever.
\<close>

definition qty :: nat where
  "qty = 1000"

record 'a dxf_state =
  file_in :: "string list"
  text_cur :: string
  error :: string
  linecount :: nat
  xmax :: 'a
  xmin :: 'a
  ymax :: 'a
  ymin :: 'a
  xstart :: "'a list"
  ystart :: "'a list"
  xend :: "'a list"
  yend :: "'a list"

definition init_state :: "string list \<Rightarrow> ('a::{zero,linorder}) dxf_state" where
  "init_state ls =
     \<lparr>file_in = ls, text_cur = [], error = [], linecount = 1,
      xmax = 0, xmin = 0, ymax = 0, ymin = 0,
      xstart = replicate qty 0, ystart = replicate qty 0,
      xend = replicate qty 0, yend = replicate qty 0\<rparr>"

fun readline :: "string list \<Rightarrow> string \<times> string list" where
  "readline [] = ([], [])"
| "readline (l # ls) = (l, ls)"

text \<open>\<^verbatim>\<open>text = file.readline(); text = text.strip()\<close>\<close>

definition next_text :: "'a dxf_state \<Rightarrow> 'a dxf_state" where
  "next_text st =
     st\<lparr>file_in := snd (readline (file_in st)), text_cur := strip (fst (readline (file_in st)))\<rparr>"

text \<open>\<^verbatim>\<open>float(text)\<close> of the line just read.\<close>

definition float_text :: "(string \<Rightarrow> 'a option) \<Rightarrow> 'a dxf_state \<Rightarrow> exn + 'a" where
  "float_text pf st = (case pf (text_cur st) of None \<Rightarrow> Inl ValueError | Some v \<Rightarrow> Inr v)"

text \<open>\<^verbatim>\<open>xs[i] = v\<close>: an index past the end raises.\<close>

definition store :: "'a list \<Rightarrow> nat \<Rightarrow> 'a \<Rightarrow> exn + 'a list" where
  "store xs i v = (if i < length xs then Inr (xs[i := v]) else Inl IndexError)"

definition step_10 :: "(string \<Rightarrow> 'a option) \<Rightarrow> 'a dxf_state \<Rightarrow> exn + 'a dxf_state" where
  "step_10 pf st =
     (if text_cur st = ''10'' then
        (let st1 = next_text st in
         case float_text pf st1 of
           Inl e \<Rightarrow> Inl e
         | Inr v \<Rightarrow> (case store (xstart st1) (linecount st1) v of
                      Inl e \<Rightarrow> Inl e
                    | Inr xs \<Rightarrow> Inr (st1\<lparr>xstart := xs, text_cur := ''nothing''\<rparr>)))
      else Inr st)"

definition step_20 :: "(string \<Rightarrow> 'a option) \<Rightarrow> 'a dxf_state \<Rightarrow> exn + 'a dxf_state" where
  "step_20 pf st =
     (if text_cur st = ''20'' then
        (let st1 = next_text st in
         case float_text pf st1 of
           Inl e \<Rightarrow> Inl e
         | Inr v \<Rightarrow> (case store (ystart st1) (linecount st1) v of
                      Inl e \<Rightarrow> Inl e
                    | Inr xs \<Rightarrow> Inr (st1\<lparr>ystart := xs, text_cur := ''nothing''\<rparr>)))
      else Inr st)"

definition step_11 :: "(string \<Rightarrow> 'a option) \<Rightarrow> 'a dxf_state \<Rightarrow> exn + 'a dxf_state" where
  "step_11 pf st =
     (if text_cur st = ''11'' then
        (let st1 = next_text st in
         case float_text pf st1 of
           Inl e \<Rightarrow> Inl e
         | Inr v \<Rightarrow> (case store (xend st1) (linecount st1) v of
                      Inl e \<Rightarrow> Inl e
                    | Inr xs \<Rightarrow> Inr (st1\<lparr>xend := xs, text_cur := ''nothing''\<rparr>)))
      else Inr st)"

definition step_21 :: "(string \<Rightarrow> 'a option) \<Rightarrow> 'a dxf_state \<Rightarrow> exn + 'a dxf_state" where
  "step_21 pf st =
     (if text_cur st = ''21'' then
        (let st1 = next_text st in
         case float_text pf st1 of
           Inl e \<Rightarrow> Inl e
         | Inr v \<Rightarrow> (case store (yend st1) (linecount st1) v of
                      Inl e \<Rightarrow> Inl e
                    | Inr xs \<Rightarrow> Inr (st1\<lparr>yend := xs, text_cur := ''nothing''\<rparr>)))
      else Inr st)"

text \<open>The four group-code tests of one pass through the entity loop, in source order.\<close>

definition group_codes :: "(string \<Rightarrow> 'a option) \<Rightarrow> 'a dxf_state \<Rightarrow> exn + 'a dxf_state" where
  "group_codes pf st =
     (case step_10 pf st of
        Inl e \<Rightarrow> Inl e
      | Inr st1 \<Rightarrow>
          (case step_20 pf st1 of
             Inl e \<Rightarrow> Inl e
           | Inr st2 \<Rightarrow>
               (case step_11 pf st2 of
                  Inl e \<Rightarrow> Inl e
                | Inr st3 \<Rightarrow> step_21 pf st3)))"

text \<open>
  The body of \<^verbatim>\<open>if text == '0'\<close>: the eight bounding-box updates in source order, then
  \<^verbatim>\<open>linecount = linecount + 1\<close>. Reading a slot past the end of an array raises.
\<close>

definition end_of_data :: "('a::linorder) dxf_state \<Rightarrow> exn + 'a dxf_state" where
  "end_of_data st =
     (let i = linecount st in
      if i < length (ystart st) \<and> i < length (yend st)
         \<and> i < length (xstart st) \<and> i < length (xend st) then
        (let ymax1 = (if ystart st ! i > ymax st then ystart st ! i else ymax st);
             ymin1 = (if ystart st ! i < ymin st then ystart st ! i else ymin st);
             ymax2 = (if yend st ! i > ymax1 then yend st ! i else ymax1);
             ymin2 = (if yend st ! i < ymin1 then yend st ! i else ymin1);
             xmax1 = (if xstart st ! i > xmax st then xstart st ! i else xmax st);
             xmin1 = (if xstart st ! i < xmin st then xstart st ! i else xmin st);
             xmax2 = (if xend st ! i > xmax1 then xend st ! i else xmax1);
             xmin2 = (if xend st ! i < xmin1 then xend st ! i else xmin1)
         in Inr (st\<lparr>ymax := ymax2, ymin := ymin2, xmax := xmax2, xmin := xmin2,
                    linecount := i + 1\<rparr>))
      else Inl IndexError)"

text \<open>
  The inner \<^verbatim>\<open>while True\<close> of an \<^verbatim>\<open>AcDbLine\<close> entity. It has no test for the end of the
  file, so it need not return: \<^term>\<open>None\<close> is the run that never leaves the loop.
\<close>

partial_function (option) entity_loop ::
  "(string \<Rightarrow> 'a option) \<Rightarrow> ('a::linorder) dxf_state \<Rightarrow> (exn + 'a dxf_state) option" where
  "entity_loop pf st =
     (case group_codes pf (next_text st) of
        Inl e \<Rightarrow> Some (Inl e)
      | Inr st1 \<Rightarrow>
          if text_cur st1 = ''0'' then Some (end_of_data st1)
          else entity_loop pf st1)"

declare entity_loop.simps [code]

text \<open>
  The DXF read loop. It leaves on a line \<^verbatim>\<open>EOF\<close>, or after an entity that fills the
  arrays (\<^verbatim>\<open>linecount >= qty\<close>), where it records the capacity error first.
\<close>

definition capacity_message :: string where
  "capacity_message = ''Error: ran out of dimentioned line arrey. Increase qty value.'' @ [newline]"

partial_function (option) read_loop ::
  "(string \<Rightarrow> 'a option) \<Rightarrow> ('a::linorder) dxf_state \<Rightarrow> (exn + 'a dxf_state) option" where
  "read_loop pf st =
     (let st1 = next_text st in
      if text_cur st1 = ''EOF'' then Some (Inr st1)
      else if lower (text_cur st1) = ''acdbline'' then
        Option.bind (entity_loop pf st1) (\<lambda>r.
          case r of
            Inl e \<Rightarrow> Some (Inl e)
          | Inr st2 \<Rightarrow>
              if linecount st2 \<ge> qty then
                Some (Inr (st2\<lparr>error := error st2 @ capacity_message, text_cur := ''EOF''\<rparr>))
              else read_loop pf st2)
      else read_loop pf st1)"

declare read_loop.simps [code]

text \<open>
  The G-code generator: one pass of \<^verbatim>\<open>for i in range(1, linecount)\<close> on the pair
  (\<^verbatim>\<open>gcode\<close>, \<^verbatim>\<open>feedflag\<close>).
\<close>

definition gcode_step ::
  "('a \<Rightarrow> string) \<Rightarrow> string \<Rightarrow> 'a dxf_state \<Rightarrow> exn + string \<times> nat \<Rightarrow> nat \<Rightarrow> exn + string \<times> nat" where
  "gcode_step fmt feedrate st acc i =
     (case acc of
        Inl e \<Rightarrow> Inl e
      | Inr (gcode, feedflag) \<Rightarrow>
          if i < length (xstart st) \<and> i < length (ystart st)
             \<and> i < length (xend st) \<and> i < length (yend st) then
            (let (gcode1, feedflag1) =
                   (if xstart st ! i \<noteq> xend st ! (i - 1) \<or> ystart st ! i \<noteq> yend st ! (i - 1)
                    then (gcode @ ''G1 X'' @ fmt (xstart st ! i) @ '' Y'' @ fmt (ystart st ! i)
                            @ [newline], 0)
                    else (gcode, feedflag));
                 gcode2 = gcode1 @ ''G1 X'' @ fmt (xend st ! i) @ '' Y'' @ fmt (yend st ! i);
                 (gcode3, feedflag3) =
                   (if feedflag1 = 0 then (gcode2 @ '' F'' @ feedrate, 1)
                    else (gcode2, feedflag1))
             in Inr (gcode3 @ [newline], feedflag3))
          else Inl IndexError)"

definition header :: string where
  "header = ''G90 G17 G21''"

definition gcode_generator ::
  "('a \<Rightarrow> string) \<Rightarrow> string \<Rightarrow> 'a dxf_state \<Rightarrow> exn + string" where
  "gcode_generator fmt feedrate st =
     map_sum id fst
       (foldl (gcode_step fmt feedrate st) (Inr (header @ [newline], 0)) [1..<linecount st])"

text \<open>
  The compiler without its two file openings: from the lines of the drawing to the
  error text and the program text that \<^verbatim>\<open>dxf_to_gcode\<close> writes.
\<close>

definition dxf_program ::
  "(string \<Rightarrow> ('a::{zero,linorder}) option) \<Rightarrow> ('a \<Rightarrow> string) \<Rightarrow> string list \<Rightarrow> string
     \<Rightarrow> (exn + string \<times> string) option" where
  "dxf_program pf fmt ls feedrate =
     Option.bind (read_loop pf (init_state ls)) (\<lambda>r.
       case r of
         Inl e \<Rightarrow> Some (Inl e)
       | Inr st \<Rightarrow>
           (case gcode_generator fmt feedrate st of
              Inl e \<Rightarrow> Some (Inl e)
            | Inr gcode \<Rightarrow> Some (Inr (error st, gcode))))"

section \<open>The session: error log, command routines and the I/O loop\<close>

text \<open>
  The library and the clock are parameters of the model: \<open>float_of\<close> is \<^verbatim>\<open>float\<close>,
  \<open>round_str\<close> is \<^verbatim>\<open>str(round(x, 2))\<close>, \<open>timestamp_str k\<close> is
  \<^verbatim>\<open>str(datetime.timestamp(datetime.now()))\<close> and \<open>strftime_str k\<close> is
  \<^verbatim>\<open>datetime.now().strftime('[%m-%d-%y %I:%M:%S %p]')\<close> at the \<open>k\<close>-th reading of the
  clock, \<open>exn_str\<close> is \<^verbatim>\<open>str(err)\<close>, and \<open>plot\<close> is the three plotting calls, with the
  exception they raise, if any.
\<close>

record 'a env =
  float_of :: "string \<Rightarrow> 'a option"
  round_str :: "'a \<Rightarrow> string"
  timestamp_str :: "nat \<Rightarrow> string"
  strftime_str :: "nat \<Rightarrow> string"
  exn_str :: "exn \<Rightarrow> string"
  plot :: "'a list \<Rightarrow> 'a list \<Rightarrow> exn option"

text \<open>
  The variables of the main body (\<^verbatim>\<open>feedrate\<close>, \<^verbatim>\<open>repeat\<close>, \<^verbatim>\<open>record\<close>, \<^verbatim>\<open>check\<close>) and
  the world it acts on: the files by path (\<^term>\<open>None\<close>: the path cannot be opened for
  reading), the paths that can be opened for writing or appending, the texts
  \<^verbatim>\<open>conn.recv(1024).decode()\<close> is going to return, the byte strings sent so far, whether
  \<^verbatim>\<open>conn.send\<close> succeeds, and the number of clock readings so far. \<^verbatim>\<open>repeat\<close> is \<^verbatim>\<open>0\<close>
  until a string is stored: \<^term>\<open>None\<close> is the \<^verbatim>\<open>0\<close>. Console output is not modelled.
  A result \<^term>\<open>Inl e\<close> of a step of the main body is an exception nothing catches: the
  program ends.
\<close>

record session =
  feedrate :: string
  repeat :: "string option"
  record_log :: string
  check :: string
  files :: "string \<Rightarrow> string option"
  writable :: "string \<Rightarrow> bool"
  inbox :: "string list"
  sent :: "string list"
  peer_up :: bool
  clock :: nat

text \<open>
  \<^verbatim>\<open>error_log(err)\<close>: one stamped line appended to \<^verbatim>\<open>error_log.txt\<close>. The \<^verbatim>\<open>open\<close> is not
  in a \<^verbatim>\<open>try\<close>: where it fails, the exception leaves the function.
\<close>

definition error_log :: "'a env \<Rightarrow> exn \<Rightarrow> session \<Rightarrow> exn + session" where
  "error_log env err s =
     (let error_line = strftime_str env (clock s) @ exn_str env err @ [newline];
          error_history = (case files s ''error_log.txt'' of None \<Rightarrow> [] | Some c \<Rightarrow> c)
      in if writable s ''error_log.txt'' then
           Inr (s\<lparr>files := (files s)(''error_log.txt'' \<mapsto> error_history @ error_line),
                  clock := clock s + 1\<rparr>)
         else Inl OSError)"

text \<open>\<^verbatim>\<open>error_log(error); return 'G0'\<close>, the two \<^verbatim>\<open>except\<close> blocks of \<^verbatim>\<open>__gcode__\<close>.\<close>

definition log_and_noop :: "'a env \<Rightarrow> exn \<Rightarrow> session \<Rightarrow> (exn + string \<times> session) option" where
  "log_and_noop env err s =
     (case error_log env err s of
        Inl e \<Rightarrow> Some (Inl e)
      | Inr s1 \<Rightarrow> Some (Inr (''G0'', s1)))"

text \<open>
  \<^verbatim>\<open>dxf_to_gcode(openfilepath, savefile, feedrate)\<close> on the files of the session: open,
  compile, write the program.
\<close>

definition dxf_to_gcode ::
  "('a::{zero,linorder}) env \<Rightarrow> string \<Rightarrow> string \<Rightarrow> string \<Rightarrow> session
     \<Rightarrow> (exn + session) option" where
  "dxf_to_gcode env openfilepath savefile fr s =
     (case files s openfilepath of
        None \<Rightarrow> Some (Inl OSError)
      | Some content \<Rightarrow>
          Option.bind (dxf_program (float_of env) (round_str env) (file_lines content) fr) (\<lambda>r.
            case r of
              Inl e \<Rightarrow> Some (Inl e)
            | Inr (err, gcode) \<Rightarrow>
                if writable s savefile then
                  Some (Inr (s\<lparr>files := (files s)(savefile \<mapsto> gcode)\<rparr>))
                else Some (Inl OSError)))"

text \<open>
  \<^verbatim>\<open>[float(line.split()[k]) for line in lines]\<close>, for the two columns \<^verbatim>\<open>viewpath\<close> reads.
\<close>

fun view_column :: "'a env \<Rightarrow> nat \<Rightarrow> string list \<Rightarrow> exn + 'a list" where
  "view_column env k [] = Inr []"
| "view_column env k (l # ls) =
     (if k < length (split_ws l) then
        (case float_of env (split_ws l ! k) of
           None \<Rightarrow> Inl ValueError
         | Some v \<Rightarrow> (case view_column env k ls of Inl e \<Rightarrow> Inl e | Inr vs \<Rightarrow> Inr (v # vs)))
      else Inl IndexError)"

definition view_path :: "'a env \<Rightarrow> string \<Rightarrow> exn option" where
  "view_path env content =
     (case view_column env 0 (file_lines content) of
        Inl e \<Rightarrow> Some e
      | Inr x \<Rightarrow> (case view_column env 1 (file_lines content) of
                   Inl e \<Rightarrow> Some e
                 | Inr y \<Rightarrow> plot env x y))"

text \<open>
  \<^verbatim>\<open>__gcode__(gcode, feedrate, record)\<close>: the command for the peer, and the session with the
  files the routine touched. The third argument is not used by the routine. An exception
  of \<^verbatim>\<open>dxf_to_gcode\<close>, or of \<^verbatim>\<open>error_log\<close> inside an \<^verbatim>\<open>except\<close> block, leaves the routine;
  a compilation that never returns is \<^term>\<open>None\<close>.
\<close>

definition gcode_cmd ::
  "('a::{zero,linorder}) env \<Rightarrow> string \<Rightarrow> string \<Rightarrow> session
     \<Rightarrow> (exn + string \<times> session) option" where
  "gcode_cmd env gcode fr s =
     (if lower gcode = ''home'' then Some (Inr (''G90 G0 X0 Y0'', s))
      else if lower gcode = ''absolute'' then Some (Inr (''G90'', s))
      else if contains ''pulse x'' (lower gcode) then
        Some (Inr (''G91 G1 X50 F'' @ drop 7 gcode, s))
      else if contains ''pulse y'' (lower gcode) then
        Some (Inr (''G91 G1 Y50 F'' @ drop 7 gcode, s))
      else if contains ''scandxf'' (lower gcode) then
        (case files s (drop 8 gcode) of
           None \<Rightarrow> log_and_noop env OSError s
         | Some c \<Rightarrow>
             (let txt_path = replace_del ''.dxf'' (drop 8 gcode) @ ''.txt'' in
              Option.bind (dxf_to_gcode env (drop 8 gcode) txt_path fr s) (\<lambda>r.
                case r of
                  Inl e \<Rightarrow> Some (Inl e)
                | Inr s1 \<Rightarrow> Some (Inr (txt_path, s1)))))
      else if contains ''viewpath'' (lower gcode) then
        (let path = drop 9 gcode;
             path1 = (if \<not> contains ''.txt'' path then path @ ''.txt'' else path)
         in case files s path1 of
              None \<Rightarrow> log_and_noop env OSError s
            | Some c \<Rightarrow>
                (case view_path env c of
                   Some e \<Rightarrow> log_and_noop env e s
                 | None \<Rightarrow> Some (Inr (gcode, s))))
      else Some (Inr (gcode, s)))"

text \<open>
  The routines of the main loop (\<^verbatim>\<open>delta\<close>, empty input, \<^verbatim>\<open>save\<close>, \<^verbatim>\<open>clear\<close>,
  \<^verbatim>\<open>feedrate\<close>): the \<^verbatim>\<open>if\<close>/\<^verbatim>\<open>elif\<close> chain on the operator's input, giving the value of
  \<^verbatim>\<open>gcode\<close> after it and the session. The \<^verbatim>\<open>open\<close> of the \<^verbatim>\<open>save\<close> branch is not in a
  \<^verbatim>\<open>try\<close>: where it fails, the exception ends the program.
\<close>

definition interpret_input :: "string \<Rightarrow> session \<Rightarrow> exn + string \<times> session" where
  "interpret_input gcode s =
     (if contains ''delta'' (lower gcode) then
        Inr (gcode, s\<lparr>repeat := Some (''G91 G0 '' @ drop 6 gcode)\<rparr>)
      else if gcode = [] \<and> repeat s \<noteq> None then
        (case repeat s of Some r \<Rightarrow> Inr (r, s) | None \<Rightarrow> Inr (gcode, s))
      else if contains ''save'' (lower gcode) then
        (let gcode1 = drop 5 gcode;
             gcode2 = (if \<not> contains ''.txt'' gcode1 then gcode1 @ ''.txt'' else gcode1)
         in if writable s gcode2 then
              Inr (gcode2, s\<lparr>files := (files s)(gcode2 \<mapsto> record_log s)\<rparr>)
            else Inl OSError)
      else if gcode = ''clear'' then Inr (gcode, s\<lparr>record_log := []\<rparr>)
      else if contains ''feedrate'' (lower gcode) then
        Inr (gcode, s\<lparr>feedrate := drop 9 (feedrate s)\<rparr>)
      else Inr (gcode, s))"

text \<open>
  \<^verbatim>\<open>try: conn.send(bytes(__gcode__(gcode, feedrate, record) + '\n', 'utf8'))\<close> with its
  \<^verbatim>\<open>except\<close>: an exception of the routine or of the send is logged, and nothing is sent.
  An exception of that \<^verbatim>\<open>error_log\<close> call ends the program.
\<close>

definition send_command ::
  "('a::{zero,linorder}) env \<Rightarrow> string \<Rightarrow> session \<Rightarrow> (exn + session) option" where
  "send_command env gcode s =
     Option.bind (gcode_cmd env gcode (feedrate s) s) (\<lambda>r.
       case r of
         Inl e \<Rightarrow> Some (error_log env e s)
       | Inr (g, s1) \<Rightarrow>
           if peer_up s1 then Some (Inr (s1\<lparr>sent := sent s1 @ [g @ [newline]]\<rparr>))
           else Some (error_log env ConnectionError s1))"

text \<open>The operator's input, from the prompt to the send: lines 276 to 302.\<close>

definition command_step ::
  "('a::{zero,linorder}) env \<Rightarrow> string \<Rightarrow> session \<Rightarrow> (exn + session) option" where
  "command_step env typed s =
     (case interpret_input typed s of
        Inl e \<Rightarrow> Some (Inl e)
      | Inr (gcode, s1) \<Rightarrow> send_command env gcode s1)"

text \<open>\<^verbatim>\<open>'{} {} {} '.format(*fields)\<close>: fewer than three fields raise.\<close>

definition format_pos :: "string list \<Rightarrow> exn + string" where
  "format_pos flds =
     (if length flds < 3 then Inl IndexError
      else Inr (flds ! 0 @ '' '' @ flds ! 1 @ '' '' @ flds ! 2 @ '' ''))"

text \<open>\<^verbatim>\<open>float(fields[3][:13])\<close>, the sender's time in the latency readout.\<close>

definition sender_time :: "'a env \<Rightarrow> string list \<Rightarrow> exn + 'a" where
  "sender_time env flds =
     (if length flds < 4 then Inl IndexError
      else (case float_of env (take 13 (flds ! 3)) of
              None \<Rightarrow> Inl ValueError
            | Some v \<Rightarrow> Inr v))"

text \<open>
  One pass of the body of \<^verbatim>\<open>while not ' ' in pos\<close>, on the text just received. The clock
  is read twice: in the test against \<^verbatim>\<open>check\<close>, and for the new \<^verbatim>\<open>check\<close>.
\<close>

definition drain_step :: "'a env \<Rightarrow> string \<Rightarrow> session \<Rightarrow> exn + session" where
  "drain_step env pos s =
     (case (if check s \<noteq> timestamp_str env (clock s) \<and> check s \<noteq> [] then
              (case format_pos (split_on CHR '','' pos) of
                 Inl e \<Rightarrow> Inl e
               | Inr p \<Rightarrow> Inr (s\<lparr>record_log := record_log s @ p @ check s @ [newline]\<rparr>))
            else Inr s) of
        Inl e \<Rightarrow> Inl e
      | Inr s1 \<Rightarrow>
          (case sender_time env (split_on CHR '','' pos) of
             Inl e \<Rightarrow> Inl e
           | Inr v \<Rightarrow>
               Inr (s1\<lparr>check := timestamp_str env (clock s + 1), clock := clock s + 2\<rparr>)))"

text \<open>
  The drain loop from its first \<^verbatim>\<open>recv\<close> on, over the texts still to arrive. With none
  left \<^verbatim>\<open>recv\<close> blocks and the loop does not return: \<^term>\<open>None\<close>.
\<close>

fun drain_loop :: "'a env \<Rightarrow> string list \<Rightarrow> session \<Rightarrow> (exn + session) option" where
  "drain_loop env [] s = None"
| "drain_loop env (pos # ms) s =
     (case drain_step env pos (s\<lparr>inbox := ms\<rparr>) of
        Inl e \<Rightarrow> Some (Inl e)
      | Inr s1 \<Rightarrow> if contains '' '' pos then Some (Inr s1) else drain_loop env ms s1)"

text \<open>
  The whole \<^verbatim>\<open>while\<close>: its first test is on the list of fields the main loop read, where
  \<^verbatim>\<open>' ' in pos\<close> asks for a field that is one space.
\<close>

definition drain :: "'a env \<Rightarrow> string list \<Rightarrow> session \<Rightarrow> (exn + session) option" where
  "drain env flds s =
     (if '' '' \<in> set flds then Some (Inr s) else drain_loop env (inbox s) s)"

text \<open>One turn of the main loop, for the input the operator types at the prompt.\<close>

definition cycle ::
  "('a::{zero,linorder}) env \<Rightarrow> string \<Rightarrow> session \<Rightarrow> (exn + session) option" where
  "cycle env typed s =
     (case inbox s of
        [] \<Rightarrow> None
      | m # ms \<Rightarrow>
          (case sender_time env (split_on CHR '','' m) of
             Inl e \<Rightarrow> Some (Inl e)
           | Inr v \<Rightarrow>
               (case format_pos (split_on CHR '','' m) of
                  Inl e \<Rightarrow> Some (Inl e)
                | Inr p \<Rightarrow>
                    Option.bind
                      (command_step env typed
                         (s\<lparr>inbox := ms,
                            record_log := record_log s @ p @ timestamp_str env (clock s)
                              @ [newline],
                            clock := clock s + 1\<rparr>))
                      (\<lambda>r. case r of
                             Inl e \<Rightarrow> Some (Inl e)
                           | Inr s1 \<Rightarrow> drain env (split_on CHR '','' m) s1))))"

text \<open>
  The session as the main body sets it up, before the first turn, in a world of files
  \<open>fs\<close>, writable paths \<open>w\<close> and texts to arrive \<open>msgs\<close>.
\<close>

definition start_session ::
  "(string \<Rightarrow> string option) \<Rightarrow> (string \<Rightarrow> bool) \<Rightarrow> string list \<Rightarrow> session" where
  "start_session fs w msgs =
     \<lparr>feedrate = ''600'', repeat = None, record_log = [], check = [], files = fs,
      writable = w, inbox = msgs, sent = [], peer_up = True, clock = 0\<rparr>"

section \<open>Vocabulary of the claims\<close>

subsection \<open>Drawing files\<close>

text \<open>
  A line segment, and the shape of a drawing file that the read loop gets through. Inside
  an entity a line is either a group code \<^verbatim>\<open>10\<close>, \<^verbatim>\<open>20\<close>, \<^verbatim>\<open>11\<close> or \<^verbatim>\<open>21\<close> followed by a
  line that \<^verbatim>\<open>float\<close> accepts, or any other line but the closing \<^verbatim>\<open>0\<close>. Outside the
  entities a line is anything but \<^verbatim>\<open>EOF\<close> and the entity tag. All tests are on the
  stripped line, as in the source.
\<close>

datatype 'a segment = Segment (sx: 'a) (sy: 'a) (ex: 'a) (ey: 'a)

datatype item = Code string string | Other string

fun item_lines :: "item \<Rightarrow> string list" where
  "item_lines (Code c v) = [c, v]"
| "item_lines (Other l) = [l]"

fun valid_item :: "(string \<Rightarrow> 'a option) \<Rightarrow> item \<Rightarrow> bool" where
  "valid_item pf (Code c v) =
     ((strip c = ''10'' \<or> strip c = ''20'' \<or> strip c = ''11'' \<or> strip c = ''21'')
      \<and> pf (strip v) \<noteq> None)"
| "valid_item pf (Other l) =
     (strip l \<noteq> ''10'' \<and> strip l \<noteq> ''20'' \<and> strip l \<noteq> ''11'' \<and> strip l \<noteq> ''21''
      \<and> strip l \<noteq> ''0'')"

text \<open>The coordinate a group code sets; a later code of the same kind overrides.\<close>

fun apply_item :: "(string \<Rightarrow> 'a option) \<Rightarrow> 'a segment \<Rightarrow> item \<Rightarrow> 'a segment" where
  "apply_item pf s (Code c v) =
     (if strip c = ''10'' then Segment (the (pf (strip v))) (sy s) (ex s) (ey s)
      else if strip c = ''20'' then Segment (sx s) (the (pf (strip v))) (ex s) (ey s)
      else if strip c = ''11'' then Segment (sx s) (sy s) (the (pf (strip v))) (ey s)
      else Segment (sx s) (sy s) (ex s) (the (pf (strip v))))"
| "apply_item pf s (Other l) = s"

definition zero_seg :: "('a::zero) segment" where
  "zero_seg = Segment 0 0 0 0"

text \<open>The segment of an entity: a coordinate with no group code keeps the array's zero.\<close>

definition segment_of :: "(string \<Rightarrow> ('a::zero) option) \<Rightarrow> item list \<Rightarrow> 'a segment" where
  "segment_of pf its = foldl (apply_item pf) zero_seg its"

datatype block = Skip string | Entity string "item list" string

fun block_lines :: "block \<Rightarrow> string list" where
  "block_lines (Skip l) = [l]"
| "block_lines (Entity h its e) = h # concat (map item_lines its) @ [e]"

fun valid_block :: "(string \<Rightarrow> 'a option) \<Rightarrow> block \<Rightarrow> bool" where
  "valid_block pf (Skip l) = (strip l \<noteq> ''EOF'' \<and> lower (strip l) \<noteq> ''acdbline'')"
| "valid_block pf (Entity h its e) =
     (lower (strip h) = ''acdbline'' \<and> list_all (valid_item pf) its \<and> strip e = ''0'')"

fun block_segments :: "(string \<Rightarrow> ('a::zero) option) \<Rightarrow> block list \<Rightarrow> 'a segment list" where
  "block_segments pf [] = []"
| "block_segments pf (Skip l # bs) = block_segments pf bs"
| "block_segments pf (Entity h its e # bs) = segment_of pf its # block_segments pf bs"

text \<open>
  The lines of a drawing: its blocks, the \<^verbatim>\<open>EOF\<close> line, and whatever follows it.
\<close>

definition drawing_lines :: "block list \<Rightarrow> string \<Rightarrow> string list \<Rightarrow> string list" where
  "drawing_lines bs eof rest = concat (map block_lines bs) @ eof # rest"

definition valid_drawing :: "(string \<Rightarrow> 'a option) \<Rightarrow> block list \<Rightarrow> string \<Rightarrow> bool" where
  "valid_drawing pf bs eof = (list_all (valid_block pf) bs \<and> strip eof = ''EOF'')"

subsection \<open>Motion programs\<close>

text \<open>
  A program text is its lines, each with its terminator. \<open>lines_of\<close> reads the lines back
  from a text; the move lines are the lines after the header.
\<close>

definition unlines :: "string list \<Rightarrow> string" where
  "unlines ls = concat (map (\<lambda>l. l @ [newline]) ls)"

fun lines_of :: "string \<Rightarrow> string list" where
  "lines_of [] = []"
| "lines_of (c # cs) =
     (if c = newline then [] # lines_of cs
      else (case lines_of cs of
              [] \<Rightarrow> [[c]]
            | l # ls \<Rightarrow> (c # l) # ls))"

definition move_lines :: "string \<Rightarrow> string list" where
  "move_lines g = tl (lines_of g)"

definition bridge_text :: "('a \<Rightarrow> string) \<Rightarrow> 'a segment \<Rightarrow> string" where
  "bridge_text fmt s = ''G1 X'' @ fmt (sx s) @ '' Y'' @ fmt (sy s)"

definition draw_text :: "('a \<Rightarrow> string) \<Rightarrow> 'a segment \<Rightarrow> string" where
  "draw_text fmt s = ''G1 X'' @ fmt (ex s) @ '' Y'' @ fmt (ey s)"

definition feed_text :: "string \<Rightarrow> string" where
  "feed_text fr = '' F'' @ fr"

text \<open>
  The compile algorithm as the specification words it, on the list of segments: \<open>p\<close> is
  the end point of the segment before, \<open>emitted\<close> the flag "feed rate already emitted for
  this chain". A bridging move resets the flag; the draw move carries the annotation when
  the flag is not set, and sets it.
\<close>

fun program_moves ::
  "('a \<Rightarrow> string) \<Rightarrow> string \<Rightarrow> 'a \<times> 'a \<Rightarrow> bool \<Rightarrow> 'a segment list \<Rightarrow> string list" where
  "program_moves fmt fr p emitted [] = []"
| "program_moves fmt fr p emitted (s # ss) =
     (if sx s \<noteq> fst p \<or> sy s \<noteq> snd p
      then [bridge_text fmt s, draw_text fmt s @ feed_text fr]
      else [draw_text fmt s @ (if emitted then [] else feed_text fr)])
     @ program_moves fmt fr (ex s, ey s) True ss"

subsection \<open>Operator inputs\<close>

text \<open>An input that matches none of the tests of \<^verbatim>\<open>__gcode__\<close>.\<close>

definition passes_through :: "string \<Rightarrow> bool" where
  "passes_through g =
     (lower g \<noteq> ''home'' \<and> lower g \<noteq> ''absolute'' \<and> \<not> contains ''pulse x'' (lower g)
      \<and> \<not> contains ''pulse y'' (lower g) \<and> \<not> contains ''scandxf'' (lower g)
      \<and> \<not> contains ''viewpath'' (lower g))"

text \<open>\<^verbatim>\<open>s.endswith(suf)\<close>\<close>

definition ends_with :: "string \<Rightarrow> string \<Rightarrow> bool" where
  "ends_with suf s = starts_with (rev suf) (rev s)"


subsection \<open>States of the read loop\<close>

text \<open>
  The state of the read loop after the segments \<open>got\<close>: the arrays hold the zero slot, the
  segments, and zeros; the bounding box is taken over the segments and the initial zero.
  \<open>st_mid\<close> is the state inside an entity, whose slot holds \<open>cur\<close> so far.
\<close>

definition cells_of :: "('a::zero) segment list \<Rightarrow> 'a segment list" where
  "cells_of got = zero_seg # got @ replicate (qty - 1 - length got) zero_seg"

definition xs_all :: "('a::zero) segment list \<Rightarrow> 'a list" where
  "xs_all segs = 0 # map sx segs @ map ex segs"

definition ys_all :: "('a::zero) segment list \<Rightarrow> 'a list" where
  "ys_all segs = 0 # map sy segs @ map ey segs"

definition st_cells ::
  "string list \<Rightarrow> string \<Rightarrow> string \<Rightarrow> ('a::{zero,linorder}) segment list \<Rightarrow> 'a segment list
     \<Rightarrow> 'a dxf_state" where
  "st_cells f t err got cells =
     \<lparr>file_in = f, text_cur = t, error = err, linecount = length got + 1,
      xmax = Max (set (xs_all got)), xmin = Min (set (xs_all got)),
      ymax = Max (set (ys_all got)), ymin = Min (set (ys_all got)),
      xstart = map sx cells, ystart = map sy cells, xend = map ex cells, yend = map ey cells\<rparr>"

definition st_of ::
  "string list \<Rightarrow> string \<Rightarrow> string \<Rightarrow> ('a::{zero,linorder}) segment list \<Rightarrow> 'a dxf_state" where
  "st_of f t err got = st_cells f t err got (cells_of got)"

definition st_mid ::
  "string list \<Rightarrow> string \<Rightarrow> string \<Rightarrow> ('a::{zero,linorder}) segment list \<Rightarrow> 'a segment
     \<Rightarrow> 'a dxf_state" where
  "st_mid f t err got cur =
     st_cells f t err got (zero_seg # got @ cur # replicate (qty - 2 - length got) zero_seg)"

subsection \<open>Sample inputs\<close>

text \<open>
  Instances of the library parameters on integer coordinates, and small inputs, for
  running the model on concrete data.
\<close>

definition sample_float :: "string \<Rightarrow> int option" where
  "sample_float =
     map_of [(''0.0'', 0), (''1.0'', 1), (''2.0'', 2), (''3.0'', 3), (''10.0'', 10),
             (''1000'', 1000), (''1000 '', 1000)]"

definition sample_round_str :: "int \<Rightarrow> string" where
  "sample_round_str v =
     (if v = 0 then ''0.0'' else if v = 1 then ''1.0'' else if v = 2 then ''2.0''
      else if v = 3 then ''3.0'' else if v = 10 then ''10.0'' else ''9.9'')"

definition sample_env :: "int env" where
  "sample_env =
     \<lparr>float_of = sample_float, round_str = sample_round_str,
      timestamp_str = (\<lambda>k. if k < 2 then ''1.5'' else ''2.5''),
      strftime_str = (\<lambda>k. ''[01-13-20 09:00:00 AM]''),
      exn_str = (\<lambda>e. ''error''),
      plot = (\<lambda>x y. None)\<rparr>"

text \<open>
  A session at its start with no file yet and nothing to arrive: one where every path can
  be opened for writing, and one where none can.
\<close>

definition sample_session :: session where
  "sample_session = start_session Map.empty (\<lambda>p. True) []"

definition sample_session_readonly :: session where
  "sample_session_readonly = start_session Map.empty (\<lambda>p. False) []"

text \<open>An entity with its four group codes, as lines of a drawing file.\<close>

definition sample_entity :: "string \<Rightarrow> string \<Rightarrow> string \<Rightarrow> string \<Rightarrow> block" where
  "sample_entity a b c d =
     Entity (''AcDbLine'' @ [newline])
       [Code ('' 10'' @ [newline]) (a @ [newline]), Code ('' 20'' @ [newline]) (b @ [newline]),
        Other ('' 30'' @ [newline]), Other (''0.0'' @ [newline]),
        Code ('' 11'' @ [newline]) (c @ [newline]), Code ('' 21'' @ [newline]) (d @ [newline])]
       (''  0'' @ [newline])"

definition sample_eof :: string where
  "sample_eof = ''EOF'' @ [newline]"

text \<open>
  The three chained segments of the specification's round-trip example; one segment from
  the origin; one segment away from the origin; two segments apart; two chained segments
  away from the origin; and a drawing of 1001 entities.
\<close>

definition drawing_chain3 :: "block list" where
  "drawing_chain3 =
     [sample_entity ''0.0'' ''0.0'' ''10.0'' ''0.0'',
      sample_entity ''10.0'' ''0.0'' ''10.0'' ''10.0'',
      sample_entity ''10.0'' ''10.0'' ''0.0'' ''10.0'']"

definition drawing_origin :: "block list" where
  "drawing_origin = [sample_entity ''0.0'' ''0.0'' ''10.0'' ''0.0'']"

definition drawing_far :: "block list" where
  "drawing_far = [Skip (''LINE'' @ [newline]), sample_entity ''1.0'' ''2.0'' ''3.0'' ''2.0'']"

definition drawing_apart :: "block list" where
  "drawing_apart =
     [sample_entity ''1.0'' ''1.0'' ''2.0'' ''2.0'', sample_entity ''3.0'' ''3.0'' ''10.0'' ''10.0'']"

definition drawing_chain2 :: "block list" where
  "drawing_chain2 =
     [sample_entity ''1.0'' ''1.0'' ''2.0'' ''2.0'', sample_entity ''2.0'' ''2.0'' ''3.0'' ''3.0'']"

definition drawing_big :: "block list" where
  "drawing_big = replicate 1001 (sample_entity ''1.0'' ''2.0'' ''3.0'' ''2.0'')"

section \<open>The read loop on a drawing\<close>

lemma init_state_st_of: "init_state ls = st_of ls [] [] []"
  by (simp add: init_state_def st_of_def st_cells_def cells_of_def xs_all_def ys_all_def
      zero_seg_def qty_def flip: replicate_Suc)

lemma st_of_mid:
  assumes "length got + 1 < qty"
  shows "st_of f t err got = st_mid f t err got zero_seg"
proof -
  from assms have "qty - 1 - length got = Suc (qty - 2 - length got)" by simp
  then show ?thesis by (simp add: st_of_def st_mid_def cells_of_def)
qed

lemma next_text_mid:
  "next_text (st_mid (l # f) t err got cur) = st_mid f (strip l) err got cur"
  by (simp add: next_text_def st_mid_def st_cells_def)

lemma item_step:
  assumes "valid_item pf it" and "length got + 1 < qty"
  shows "\<exists>t'. t' \<noteq> ''0'' \<and>
    group_codes pf (next_text (st_mid (item_lines it @ after) t err got cur))
      = Inr (st_mid after t' err got (apply_item pf cur it))"
proof (cases it)
  case (Code c v)
  with assms obtain x where x: "pf (strip v) = Some x" by auto
  from Code assms consider "strip c = ''10''" | "strip c = ''20''" | "strip c = ''11''" | "strip c = ''21''"
    by auto
  then show ?thesis
  proof cases
    case 1
    with Code x assms(2) show ?thesis
      apply (intro exI [of _ "''nothing''"])
      by (simp add: group_codes_def step_10_def step_20_def step_11_def step_21_def
          float_text_def store_def next_text_def st_mid_def st_cells_def list_update_append)
  next
    case 2
    with Code x assms(2) show ?thesis
      apply (intro exI [of _ "''nothing''"])
      by (simp add: group_codes_def step_10_def step_20_def step_11_def step_21_def
          float_text_def store_def next_text_def st_mid_def st_cells_def list_update_append)
  next
    case 3
    with Code x assms(2) show ?thesis
      apply (intro exI [of _ "''nothing''"])
      by (simp add: group_codes_def step_10_def step_20_def step_11_def step_21_def
          float_text_def store_def next_text_def st_mid_def st_cells_def list_update_append)
  next
    case 4
    with Code x assms(2) show ?thesis
      apply (intro exI [of _ "''nothing''"])
      by (simp add: group_codes_def step_10_def step_20_def step_11_def step_21_def
          float_text_def store_def next_text_def st_mid_def st_cells_def list_update_append)
  qed
next
  case (Other l)
  with assms show ?thesis
    apply (intro exI [of _ "strip l"])
    by (simp add: group_codes_def step_10_def step_20_def step_11_def step_21_def
        next_text_def st_mid_def st_cells_def)
qed


lemma entity_loop_items:
  assumes "list_all (valid_item pf) its" and "strip e = ''0''" and "length got + 1 < qty"
  shows "entity_loop pf (st_mid (concat (map item_lines its) @ e # after) t err got cur)
    = Some (end_of_data (st_mid after ''0'' err got (foldl (apply_item pf) cur its)))"
  using assms(1)
proof (induction its arbitrary: t cur)
  case Nil
  have "group_codes pf (next_text (st_mid (e # after) t err got cur))
      = Inr (st_mid after ''0'' err got cur)"
    using assms(2)
    by (simp add: group_codes_def step_10_def step_20_def step_11_def step_21_def
        next_text_def st_mid_def st_cells_def)
  then show ?case
    by (subst entity_loop.simps) (simp add: st_mid_def st_cells_def)
next
  case (Cons it its)
  then have v: "valid_item pf it" and vs: "list_all (valid_item pf) its" by simp_all
  from item_step [OF v assms(3), of "concat (map item_lines its) @ e # after" t err cur]
  obtain tn where tn: "tn \<noteq> ''0''"
    and step: "group_codes pf
        (next_text (st_mid (item_lines it @ concat (map item_lines its) @ e # after) t err got cur))
      = Inr (st_mid (concat (map item_lines its) @ e # after) tn err got (apply_item pf cur it))"
    by blast
  have tcur: "text_cur (st_mid (concat (map item_lines its) @ e # after) tn err got
      (apply_item pf cur it)) = tn"
    by (simp add: st_mid_def st_cells_def)
  show ?case
    by (subst entity_loop.simps) (simp add: step tcur tn Cons.IH [OF vs])
qed


lemma Max_snoc2:
  fixes a b :: "'a::linorder"
  shows "Max (set (z # xs @ [a] @ ys @ [b])) = max (max (Max (set (z # xs @ ys))) a) b"
proof -
  have "set (z # xs @ [a] @ ys @ [b]) = insert b (insert a (set (z # xs @ ys)))" by auto
  then show ?thesis by (simp add: max.commute max.left_commute)
qed

lemma Min_snoc2:
  fixes a b :: "'a::linorder"
  shows "Min (set (z # xs @ [a] @ ys @ [b])) = min (min (Min (set (z # xs @ ys))) a) b"
proof -
  have "set (z # xs @ [a] @ ys @ [b]) = insert b (insert a (set (z # xs @ ys)))" by auto
  then show ?thesis by (simp add: min.commute min.left_commute)
qed

lemma grow_max: "(if (a::'a::linorder) > m then a else m) = max m a"
  by (auto simp: max_def)

lemma grow_min: "(if (a::'a::linorder) < m then a else m) = min m a"
  by (auto simp: min_def)

lemma end_of_data_mid:
  assumes "length got + 1 < qty"
  shows "end_of_data (st_mid f t err got cur) = Inr (st_of f t err (got @ [cur]))"
proof -
  let ?st = "st_mid f t err got cur"
  have len: "linecount ?st < length (xstart ?st)" "linecount ?st < length (ystart ?st)"
    "linecount ?st < length (xend ?st)" "linecount ?st < length (yend ?st)"
    using assms by (simp_all add: st_mid_def st_cells_def)
  have nth: "xstart ?st ! linecount ?st = sx cur" "ystart ?st ! linecount ?st = sy cur"
    "xend ?st ! linecount ?st = ex cur" "yend ?st ! linecount ?st = ey cur"
    by (simp_all add: st_mid_def st_cells_def nth_append)
  have cells: "zero_seg # got @ cur # replicate (qty - 2 - length got) zero_seg
      = cells_of (got @ [cur])"
    by (simp add: cells_of_def)
  have box: "xmax ?st = Max (set (xs_all got))" "xmin ?st = Min (set (xs_all got))"
    "ymax ?st = Max (set (ys_all got))" "ymin ?st = Min (set (ys_all got))"
    by (simp_all add: st_mid_def st_cells_def)
  have mx: "Max (set (xs_all (got @ [cur]))) = max (max (Max (set (xs_all got))) (sx cur)) (ex cur)"
    using Max_snoc2 [of 0 "map sx got" "sx cur" "map ex got" "ex cur"] by (simp add: xs_all_def)
  have mn: "Min (set (xs_all (got @ [cur]))) = min (min (Min (set (xs_all got))) (sx cur)) (ex cur)"
    using Min_snoc2 [of 0 "map sx got" "sx cur" "map ex got" "ex cur"] by (simp add: xs_all_def)
  have my: "Max (set (ys_all (got @ [cur]))) = max (max (Max (set (ys_all got))) (sy cur)) (ey cur)"
    using Max_snoc2 [of 0 "map sy got" "sy cur" "map ey got" "ey cur"] by (simp add: ys_all_def)
  have ny: "Min (set (ys_all (got @ [cur]))) = min (min (Min (set (ys_all got))) (sy cur)) (ey cur)"
    using Min_snoc2 [of 0 "map sy got" "sy cur" "map ey got" "ey cur"] by (simp add: ys_all_def)
  have "end_of_data ?st = Inr (?st\<lparr>ymax := max (max (ymax ?st) (sy cur)) (ey cur),
      ymin := min (min (ymin ?st) (sy cur)) (ey cur),
      xmax := max (max (xmax ?st) (sx cur)) (ex cur),
      xmin := min (min (xmin ?st) (sx cur)) (ex cur),
      linecount := linecount ?st + 1\<rparr>)"
    unfolding end_of_data_def Let_def grow_max grow_min using len by (simp only: nth if_True simp_thms)
  also have "\<dots> = Inr (st_of f t err (got @ [cur]))"
    unfolding box mx [symmetric] mn [symmetric] my [symmetric] ny [symmetric]
    by (simp add: st_of_def st_mid_def st_cells_def cells [symmetric])
  finally show ?thesis .
qed

lemma entity_loop_entity:
  assumes "list_all (valid_item pf) its" and "strip e = ''0''" and "length got + 1 < qty"
  shows "entity_loop pf (st_of (concat (map item_lines its) @ e # after) t err got)
    = Some (Inr (st_of after ''0'' err (got @ [segment_of pf its])))"
  by (simp add: st_of_mid [OF assms(3)] entity_loop_items [OF assms] end_of_data_mid [OF assms(3)]
      segment_of_def)


lemma st_of_fields [simp]:
  "text_cur (st_of f t err got) = t"
  "error (st_of f t err got) = err"
  "linecount (st_of f t err got) = length got + 1"
  "file_in (st_of f t err got) = f"
  by (simp_all add: st_of_def st_cells_def)

lemma next_text_of: "next_text (st_of (l # f) t err got) = st_of f (strip l) err got"
  by (simp add: next_text_def st_of_def st_cells_def)

lemma st_of_capacity:
  "(st_of f t err got)\<lparr>error := err', text_cur := t'\<rparr> = st_of f t' err' got"
  by (simp add: st_of_def st_cells_def)

lemma acdbline_not_EOF: "lower s = ''acdbline'' \<Longrightarrow> s \<noteq> ''EOF''"
  by (auto simp: lower_def lower_char_def)

lemma read_loop_eof:
  assumes "strip eof = ''EOF''"
  shows "read_loop pf (st_of (eof # rest) t err got) = Some (Inr (st_of rest ''EOF'' err got))"
  by (subst read_loop.simps) (simp add: next_text_of assms)

lemma read_loop_skip:
  assumes "valid_block pf (Skip l)"
  shows "read_loop pf (st_of (l # f) t err got) = read_loop pf (st_of f (strip l) err got)"
  using assms by (subst read_loop.simps) (simp add: next_text_of)

lemma read_loop_entity:
  assumes "valid_block pf (Entity h its e)" and "length got + 1 < qty"
  shows "read_loop pf (st_of (block_lines (Entity h its e) @ after) t err got)
    = (if qty \<le> length got + 2
       then Some (Inr (st_of after ''EOF'' (err @ capacity_message) (got @ [segment_of pf its])))
       else read_loop pf (st_of after ''0'' err (got @ [segment_of pf its])))"
proof -
  from assms(1) have h: "lower (strip h) = ''acdbline''" and its: "list_all (valid_item pf) its"
    and e: "strip e = ''0''" by simp_all
  from h have neof: "strip h \<noteq> ''EOF''" by (rule acdbline_not_EOF)
  have ent: "entity_loop pf (st_of (concat (map item_lines its) @ e # after) (strip h) err got)
      = Some (Inr (st_of after ''0'' err (got @ [segment_of pf its])))"
    by (rule entity_loop_entity [OF its e assms(2)])
  show ?thesis
    by (subst read_loop.simps) (simp add: next_text_of h neof ent st_of_capacity)
qed

lemma read_loop_blocks:
  assumes "list_all (valid_block pf) bs"
    and "length got + length (block_segments pf bs) + 1 < qty"
    and "\<And>t'. read_loop pf (st_of after t' err (got @ block_segments pf bs)) = R"
  shows "read_loop pf (st_of (concat (map block_lines bs) @ after) t err got) = R"
  using assms
proof (induction bs arbitrary: t got)
  case Nil
  then show ?case by simp
next
  case (Cons b bs)
  show ?case
  proof (cases b)
    case (Skip l)
    with Cons.prems have v: "valid_block pf (Skip l)" and vs: "list_all (valid_block pf) bs"
      by simp_all
    have "read_loop pf (st_of (concat (map block_lines bs) @ after) (strip l) err got) = R"
      using Cons.prems(2,3) Skip by (intro Cons.IH [OF vs]) simp_all
    then show ?thesis using Skip by (simp add: read_loop_skip [OF v])
  next
    case (Entity h its e)
    with Cons.prems have v: "valid_block pf (Entity h its e)"
      and vs: "list_all (valid_block pf) bs" by simp_all
    from Cons.prems(2) Entity have room: "length got + 1 < qty" "\<not> qty \<le> length got + 2"
      by simp_all
    have "read_loop pf (st_of (concat (map block_lines bs) @ after) ''0'' err
        (got @ [segment_of pf its])) = R"
      using Cons.prems(2,3) Entity by (intro Cons.IH [OF vs]) simp_all
    then show ?thesis
      using Entity read_loop_entity [OF v room(1), of "concat (map block_lines bs) @ after" t err]
        room(2)
      by simp
  qed
qed

section \<open>The generator on the parsed segments\<close>

lemma unlines_simps:
  "unlines [] = []"
  "unlines (l # ls) = l @ newline # unlines ls"
  "unlines (ls @ ms) = unlines ls @ unlines ms"
  by (simp_all add: unlines_def)

lemma gcode_fold:
  assumes "pre \<noteq> []" and "flag \<le> 1"
  shows "foldl (gcode_step fmt fr (st_cells f t err got (pre @ ss @ post))) (Inr (g, flag))
      [length pre..<length pre + length ss]
    = Inr (g @ unlines (program_moves fmt fr (ex (last pre), ey (last pre)) (flag \<noteq> 0) ss),
           if ss = [] then flag else 1)"
  using assms
proof (induction ss arbitrary: pre g flag)
  case Nil
  then show ?case by (simp add: unlines_simps)
next
  case (Cons s ss)
  let ?st = "st_cells f t err got (pre @ s # ss @ post)"
  have upt: "[length pre..<length pre + length (s # ss)]
      = length pre # [length (pre @ [s])..<length (pre @ [s]) + length ss]"
    by (subst upt_rec) simp
  have cur: "xstart ?st ! length pre = sx s" "ystart ?st ! length pre = sy s"
    "xend ?st ! length pre = ex s" "yend ?st ! length pre = ey s"
    by (simp_all add: st_cells_def nth_append)
  have prev: "xend ?st ! (length pre - Suc 0) = ex (last pre)"
    "yend ?st ! (length pre - Suc 0) = ey (last pre)"
    using Cons.prems by (simp_all add: st_cells_def nth_append last_conv_nth)
  have len: "length pre < length (xstart ?st)" "length pre < length (ystart ?st)"
    "length pre < length (xend ?st)" "length pre < length (yend ?st)"
    by (simp_all add: st_cells_def)
  from Cons.prems(2) have flag: "flag = 0 \<or> flag = 1" by auto
  have step: "gcode_step fmt fr ?st (Inr (g, flag)) (length pre)
      = Inr (g @ unlines
          (if sx s \<noteq> ex (last pre) \<or> sy s \<noteq> ey (last pre)
           then [bridge_text fmt s, draw_text fmt s @ feed_text fr]
           else [draw_text fmt s @ (if flag \<noteq> 0 then [] else feed_text fr)]), 1)"
    using flag
    by (auto simp add: gcode_step_def len cur prev unlines_simps bridge_text_def
        draw_text_def feed_text_def)
  have ih: "foldl (gcode_step fmt fr ?st) (Inr (g', Suc 0))
        [length (pre @ [s])..<length (pre @ [s]) + length ss]
      = Inr (g' @ unlines (program_moves fmt fr (ex s, ey s) True ss), Suc 0)"
    for g'
    using Cons.IH [of "pre @ [s]" 1 g'] by simp
  show ?case
    unfolding upt by (simp add: step ih unlines_simps del: length_append)
qed

lemma gcode_generator_st_of:
  fixes segs :: "('a::{zero,linorder}) segment list"
  assumes "length segs < qty"
  shows "gcode_generator fmt fr (st_of f t err segs)
    = Inr (unlines (header # program_moves fmt fr (0, 0) False segs))"
proof -
  have a: "gcode_generator fmt fr (st_of f t err segs)
      = map_sum id fst (foldl (gcode_step fmt fr (st_cells f t err segs
            ([zero_seg] @ segs @ replicate (qty - 1 - length segs) zero_seg)))
          (Inr (header @ [newline], 0))
          [length [zero_seg::'a segment]..<length [zero_seg::'a segment] + length segs])"
    by (simp add: gcode_generator_def st_of_def cells_of_def st_cells_def del: upt_Suc)
  have b: "foldl (gcode_step fmt fr (st_cells f t err segs
            ([zero_seg] @ segs @ replicate (qty - 1 - length segs) zero_seg)))
          (Inr (header @ [newline], 0))
          [length [zero_seg::'a segment]..<length [zero_seg::'a segment] + length segs]
      = Inr ((header @ [newline]) @ unlines (program_moves fmt fr
          (ex (last [zero_seg::'a segment]), ey (last [zero_seg::'a segment])) ((0::nat) \<noteq> 0) segs),
        if segs = [] then 0 else 1)"
    by (rule gcode_fold) simp_all
  show ?thesis
    unfolding a b by (simp add: unlines_simps zero_seg_def)
qed

section \<open>Whole drawings\<close>

lemma qty_gt: "2 < qty"
  by (simp add: qty_def)

lemma block_segments_append:
  "block_segments pf (as @ bs) = block_segments pf as @ block_segments pf bs"
proof (induction as)
  case Nil
  then show ?case by simp
next
  case (Cons a as)
  then show ?case by (cases a) simp_all
qed

lemma split_at_entity:
  "Suc m \<le> length (block_segments pf bs) \<Longrightarrow>
   \<exists>bs1 h its e bs2. bs = bs1 @ Entity h its e # bs2 \<and> length (block_segments pf bs1) = m"
proof (induction bs arbitrary: m)
  case Nil
  then show ?case by simp
next
  case (Cons b bs)
  show ?case
  proof (cases b)
    case (Skip l)
    with Cons.prems have "Suc m \<le> length (block_segments pf bs)" by simp
    from Cons.IH [OF this] obtain bs1 h its e bs2
      where "bs = bs1 @ Entity h its e # bs2" and "length (block_segments pf bs1) = m"
      by blast
    with Skip have "b # bs = (Skip l # bs1) @ Entity h its e # bs2 \<and>
        length (block_segments pf (Skip l # bs1)) = m"
      by simp
    then show ?thesis by blast
  next
    case (Entity h its e)
    show ?thesis
    proof (cases m)
      case 0
      with Entity have "b # bs = [] @ Entity h its e # bs \<and> length (block_segments pf []) = m"
        by simp
      then show ?thesis by blast
    next
      case (Suc k)
      with Cons.prems Entity have "Suc k \<le> length (block_segments pf bs)" by simp
      from Cons.IH [OF this] obtain bs1 h' its' e' bs2
        where "bs = bs1 @ Entity h' its' e' # bs2" and "length (block_segments pf bs1) = k"
        by blast
      with Entity Suc have "b # bs = (Entity h its e # bs1) @ Entity h' its' e' # bs2 \<and>
          length (block_segments pf (Entity h its e # bs1)) = m"
        by simp
      then show ?thesis by blast
    qed
  qed
qed

lemma read_loop_all:
  assumes "list_all (valid_block pf) bs" and "strip eof = ''EOF''"
    and "length (block_segments pf bs) + 1 < qty"
  shows "read_loop pf (init_state (concat (map block_lines bs) @ eof # rest))
    = Some (Inr (st_of rest ''EOF'' [] (block_segments pf bs)))"
  unfolding init_state_st_of
  by (rule read_loop_blocks [OF assms(1)]) (use assms in \<open>simp_all add: read_loop_eof\<close>)

lemma read_loop_full:
  assumes "list_all (valid_block pf) bs1" and "valid_block pf (Entity h its e)"
    and "length (block_segments pf bs1) + 2 = qty"
  shows "read_loop pf (init_state (concat (map block_lines bs1) @ block_lines (Entity h its e) @ after))
    = Some (Inr (st_of after ''EOF'' capacity_message
        (block_segments pf bs1 @ [segment_of pf its])))"
  unfolding init_state_st_of
proof (rule read_loop_blocks [OF assms(1)])
  show "length [] + length (block_segments pf bs1) + 1 < qty"
    using assms(3) by simp
  fix t'
  have room: "length ([] @ block_segments pf bs1) + 1 < qty" using assms(3) by simp
  have "read_loop pf (st_of (block_lines (Entity h its e) @ after) t' [] ([] @ block_segments pf bs1))
    = (if qty \<le> length ([] @ block_segments pf bs1) + 2
       then Some (Inr (st_of after ''EOF'' ([] @ capacity_message)
         (([] @ block_segments pf bs1) @ [segment_of pf its])))
       else read_loop pf (st_of after ''0'' [] (([] @ block_segments pf bs1) @ [segment_of pf its])))"
    by (rule read_loop_entity [OF assms(2) room])
  then show "read_loop pf (st_of (block_lines (Entity h its e) @ after) t' [] ([] @ block_segments pf bs1))
    = Some (Inr (st_of after ''EOF'' capacity_message
        (block_segments pf bs1 @ [segment_of pf its])))"
    using assms(3) by simp
qed

lemma read_loop_cut:
  assumes "list_all (valid_block pf) bs"
    and "qty \<le> length (block_segments pf bs) + 1"
  shows "\<exists>bs2. read_loop pf (init_state (concat (map block_lines bs) @ after))
      = Some (Inr (st_of (concat (map block_lines bs2) @ after) ''EOF'' capacity_message
          (take (qty - 1) (block_segments pf bs))))
    \<and> length (block_segments pf bs2) + (qty - 1) = length (block_segments pf bs)"
proof -
  from assms(2) qty_gt have "Suc (qty - 2) \<le> length (block_segments pf bs)" by simp
  from split_at_entity [OF this] obtain bs1 h its e bs2
    where bs: "bs = bs1 @ Entity h its e # bs2"
      and n1: "length (block_segments pf bs1) = qty - 2"
    by blast
  from assms(1) bs have v1: "list_all (valid_block pf) bs1"
    and ve: "valid_block pf (Entity h its e)" by simp_all
  from n1 qty_gt have n1': "length (block_segments pf bs1) + 2 = qty" by simp
  have segs: "block_segments pf bs
      = (block_segments pf bs1 @ [segment_of pf its]) @ block_segments pf bs2"
    by (simp add: bs block_segments_append)
  have len: "length (block_segments pf bs1 @ [segment_of pf its]) = qty - 1"
    using n1' by simp
  have tk: "take (qty - 1) (block_segments pf bs) = block_segments pf bs1 @ [segment_of pf its]"
    unfolding segs using len by simp
  have lines: "concat (map block_lines bs) @ after
      = concat (map block_lines bs1) @ block_lines (Entity h its e)
          @ (concat (map block_lines bs2) @ after)"
    by (simp add: bs)
  have "read_loop pf (init_state (concat (map block_lines bs) @ after))
      = Some (Inr (st_of (concat (map block_lines bs2) @ after) ''EOF'' capacity_message
          (take (qty - 1) (block_segments pf bs))))"
    unfolding lines tk by (rule read_loop_full [OF v1 ve n1'])
  moreover have "length (block_segments pf bs2) + (qty - 1) = length (block_segments pf bs)"
    unfolding segs using len by simp
  ultimately show ?thesis by blast
qed

lemma read_loop_drawing:
  assumes "valid_drawing pf bs eof"
  shows "\<exists>fl. read_loop pf (init_state (drawing_lines bs eof rest))
    = Some (Inr (st_of fl ''EOF''
        (if length (block_segments pf bs) + 1 < qty then [] else capacity_message)
        (take (qty - 1) (block_segments pf bs))))"
proof (cases "length (block_segments pf bs) + 1 < qty")
  case True
  from assms have v: "list_all (valid_block pf) bs" and e: "strip eof = ''EOF''"
    by (simp_all add: valid_drawing_def)
  from True have "take (qty - 1) (block_segments pf bs) = block_segments pf bs" by simp
  with True read_loop_all [OF v e True, of rest] show ?thesis
    by (auto simp: drawing_lines_def)
next
  case False
  from assms have v: "list_all (valid_block pf) bs" by (simp add: valid_drawing_def)
  from False have "qty \<le> length (block_segments pf bs) + 1" by simp
  from read_loop_cut [OF v this, of "eof # rest"] False show ?thesis
    by (auto simp: drawing_lines_def)
qed

lemma dxf_program_drawing:
  assumes "valid_drawing pf bs eof"
  shows "dxf_program pf fmt (drawing_lines bs eof rest) fr
    = Some (Inr (if length (block_segments pf bs) + 1 < qty then [] else capacity_message,
        unlines (header # program_moves fmt fr (0, 0) False
          (take (qty - 1) (block_segments pf bs)))))"
proof -
  from read_loop_drawing [OF assms, of rest] obtain fl where
    "read_loop pf (init_state (drawing_lines bs eof rest))
      = Some (Inr (st_of fl ''EOF''
          (if length (block_segments pf bs) + 1 < qty then [] else capacity_message)
          (take (qty - 1) (block_segments pf bs))))"
    by blast
  moreover have "length (take (qty - 1) (block_segments pf bs)) < qty"
    using qty_gt by simp
  ultimately show ?thesis
    by (simp add: dxf_program_def gcode_generator_st_of)
qed

section \<open>Program texts\<close>

lemma lines_of_line:
  "newline \<notin> set l \<Longrightarrow> lines_of (l @ newline # t) = l # lines_of t"
  by (induction l) auto

lemma lines_of_unlines:
  "\<forall>l\<in>set ls. newline \<notin> set l \<Longrightarrow> lines_of (unlines ls) = ls"
  by (induction ls) (simp_all add: unlines_simps lines_of_line)

lemma moves_chained:
  assumes "\<forall>i. 0 < i \<and> i < length (s # ss) \<longrightarrow>
      sx ((s # ss) ! i) = ex ((s # ss) ! (i - 1)) \<and> sy ((s # ss) ! i) = ey ((s # ss) ! (i - 1))"
  shows "program_moves fmt fr (ex s, ey s) True ss = map (draw_text fmt) ss"
  using assms
proof (induction ss arbitrary: s)
  case Nil
  then show ?case by simp
next
  case (Cons t ss)
  from Cons.prems [rule_format, of 1] have t: "sx t = ex s" "sy t = ey s" by simp_all
  have "\<forall>i. 0 < i \<and> i < length (t # ss) \<longrightarrow>
      sx ((t # ss) ! i) = ex ((t # ss) ! (i - 1)) \<and> sy ((t # ss) ! i) = ey ((t # ss) ! (i - 1))"
  proof (intro allI impI)
    fix i assume i: "0 < i \<and> i < length (t # ss)"
    with Cons.prems [rule_format, of "Suc i"] show
      "sx ((t # ss) ! i) = ex ((t # ss) ! (i - 1)) \<and> sy ((t # ss) ! i) = ey ((t # ss) ! (i - 1))"
      by simp
  qed
  from Cons.IH [OF this] t show ?case by simp
qed

lemma moves_unchained:
  assumes "\<forall>i. 0 < i \<and> i < length (s # ss) \<longrightarrow>
      sx ((s # ss) ! i) \<noteq> ex ((s # ss) ! (i - 1)) \<or> sy ((s # ss) ! i) \<noteq> ey ((s # ss) ! (i - 1))"
  shows "program_moves fmt fr (ex s, ey s) em ss
    = concat (map (\<lambda>s. [bridge_text fmt s, draw_text fmt s @ feed_text fr]) ss)"
  using assms
proof (induction ss arbitrary: s em)
  case Nil
  then show ?case by simp
next
  case (Cons t ss)
  from Cons.prems [rule_format, of 1] have t: "sx t \<noteq> ex s \<or> sy t \<noteq> ey s" by simp
  have "\<forall>i. 0 < i \<and> i < length (t # ss) \<longrightarrow>
      sx ((t # ss) ! i) \<noteq> ex ((t # ss) ! (i - 1)) \<or> sy ((t # ss) ! i) \<noteq> ey ((t # ss) ! (i - 1))"
  proof (intro allI impI)
    fix i assume i: "0 < i \<and> i < length (t # ss)"
    with Cons.prems [rule_format, of "Suc i"] show
      "sx ((t # ss) ! i) \<noteq> ex ((t # ss) ! (i - 1)) \<or> sy ((t # ss) ! i) \<noteq> ey ((t # ss) ! (i - 1))"
      by simp
  qed
  from Cons.IH [OF this] t show ?case by simp
qed

section \<open>Sample drawings\<close>

lemmas text_eval = strip_def is_space_def lower_def lower_char_def

lemma sample_entity_valid:
  "valid_block sample_float (sample_entity ''0.0'' ''0.0'' ''10.0'' ''0.0'')"
  "valid_block sample_float (sample_entity ''10.0'' ''0.0'' ''10.0'' ''10.0'')"
  "valid_block sample_float (sample_entity ''10.0'' ''10.0'' ''0.0'' ''10.0'')"
  "valid_block sample_float (sample_entity ''1.0'' ''2.0'' ''3.0'' ''2.0'')"
  "valid_block sample_float (sample_entity ''1.0'' ''1.0'' ''2.0'' ''2.0'')"
  "valid_block sample_float (sample_entity ''3.0'' ''3.0'' ''10.0'' ''10.0'')"
  "valid_block sample_float (sample_entity ''2.0'' ''2.0'' ''3.0'' ''3.0'')"
  by (simp_all add: sample_entity_def sample_float_def text_eval)

lemma sample_entity_segment:
  "block_segments sample_float (sample_entity ''0.0'' ''0.0'' ''10.0'' ''0.0'' # bs)
     = Segment 0 0 10 0 # block_segments sample_float bs"
  "block_segments sample_float (sample_entity ''10.0'' ''0.0'' ''10.0'' ''10.0'' # bs)
     = Segment 10 0 10 10 # block_segments sample_float bs"
  "block_segments sample_float (sample_entity ''10.0'' ''10.0'' ''0.0'' ''10.0'' # bs)
     = Segment 10 10 0 10 # block_segments sample_float bs"
  "block_segments sample_float (sample_entity ''1.0'' ''2.0'' ''3.0'' ''2.0'' # bs)
     = Segment 1 2 3 2 # block_segments sample_float bs"
  "block_segments sample_float (sample_entity ''1.0'' ''1.0'' ''2.0'' ''2.0'' # bs)
     = Segment 1 1 2 2 # block_segments sample_float bs"
  "block_segments sample_float (sample_entity ''3.0'' ''3.0'' ''10.0'' ''10.0'' # bs)
     = Segment 3 3 10 10 # block_segments sample_float bs"
  "block_segments sample_float (sample_entity ''2.0'' ''2.0'' ''3.0'' ''3.0'' # bs)
     = Segment 2 2 3 3 # block_segments sample_float bs"
  by (simp_all add: sample_entity_def sample_float_def segment_of_def zero_seg_def text_eval)

lemma sample_eof_strip: "strip sample_eof = ''EOF''"
  by (simp add: sample_eof_def text_eval)

lemma sample_round_str_plain:
  "newline \<notin> set (sample_round_str v)" "CHR ''F'' \<notin> set (sample_round_str v)"
  by (simp_all add: sample_round_str_def)

lemma block_segments_replicate:
  "block_segments pf (replicate n (Entity h its e)) = replicate n (segment_of pf its)"
  by (induction n) simp_all


section \<open>Claims on the path compiler\<close>

lemma st_of_slots:
  "xstart (st_of f t err (s # r)) ! 0 = 0" "ystart (st_of f t err (s # r)) ! 0 = 0"
  "xend (st_of f t err (s # r)) ! 0 = 0" "yend (st_of f t err (s # r)) ! 0 = 0"
  "xstart (st_of f t err (s # r)) ! 1 = sx s" "ystart (st_of f t err (s # r)) ! 1 = sy s"
  "xend (st_of f t err (s # r)) ! 1 = ex s" "yend (st_of f t err (s # r)) ! 1 = ey s"
  by (simp_all add: st_of_def st_cells_def cells_of_def zero_seg_def)

text \<open>
  C10. The arrays keep slot 0 at zero and the first parsed segment goes to slot 1, so the
  generator compares the first segment with the zero slot: for every drawing with at
  least one entity, the program is the header, then a bridging move to the start of the
  first segment if and only if that start is not (0, 0), then the draw move of the first
  segment with the feed-rate annotation, then the moves of the other segments.
\<close>

theorem first_move_bridge:
  assumes "valid_drawing pf bs eof" and "block_segments pf bs = s # ss"
  shows "\<exists>st err tail.
    read_loop pf (init_state (drawing_lines bs eof rest)) = Some (Inr st)
    \<and> xstart st ! 0 = 0 \<and> ystart st ! 0 = 0 \<and> xend st ! 0 = 0 \<and> yend st ! 0 = 0
    \<and> xstart st ! 1 = sx s \<and> ystart st ! 1 = sy s \<and> xend st ! 1 = ex s \<and> yend st ! 1 = ey s
    \<and> dxf_program pf fmt (drawing_lines bs eof rest) fr
        = Some (Inr (err, unlines (header
            # (if sx s \<noteq> 0 \<or> sy s \<noteq> 0 then [bridge_text fmt s] else [])
            @ (draw_text fmt s @ feed_text fr) # tail)))"
proof -
  from qty_gt have "qty - 1 = Suc (qty - 2)" by simp
  with assms(2) have tk: "take (qty - 1) (block_segments pf bs) = s # take (qty - 2) ss"
    by simp
  from read_loop_drawing [OF assms(1), of rest] obtain fl err
    where rd: "read_loop pf (init_state (drawing_lines bs eof rest))
      = Some (Inr (st_of fl ''EOF'' err (s # take (qty - 2) ss)))"
    unfolding tk by blast
  have moves: "program_moves fmt fr (0, 0) False (s # take (qty - 2) ss)
      = (if sx s \<noteq> 0 \<or> sy s \<noteq> 0 then [bridge_text fmt s] else [])
        @ (draw_text fmt s @ feed_text fr)
        # program_moves fmt fr (ex s, ey s) True (take (qty - 2) ss)"
    by simp
  have "dxf_program pf fmt (drawing_lines bs eof rest) fr
      = Some (Inr (if length (block_segments pf bs) + 1 < qty then [] else capacity_message,
          unlines (header # (if sx s \<noteq> 0 \<or> sy s \<noteq> 0 then [bridge_text fmt s] else [])
            @ (draw_text fmt s @ feed_text fr)
            # program_moves fmt fr (ex s, ey s) True (take (qty - 2) ss))))"
    unfolding dxf_program_drawing [OF assms(1)] tk moves ..
  with rd show ?thesis
    by (intro exI conjI) (assumption, simp_all only: st_of_slots)
qed

theorem first_move_bridge_witness:
  "valid_drawing sample_float drawing_far sample_eof
   \<and> block_segments sample_float drawing_far = [Segment 1 2 3 2]
   \<and> (\<exists>st err tail.
        read_loop sample_float (init_state (drawing_lines drawing_far sample_eof [])) = Some (Inr st)
        \<and> xstart st ! 0 = 0 \<and> ystart st ! 0 = 0 \<and> xend st ! 0 = 0 \<and> yend st ! 0 = 0
        \<and> xstart st ! 1 = 1 \<and> ystart st ! 1 = 2 \<and> xend st ! 1 = 3 \<and> yend st ! 1 = 2
        \<and> dxf_program sample_float sample_round_str (drawing_lines drawing_far sample_eof []) ''600''
            = Some (Inr (err, unlines (header
                # [bridge_text sample_round_str (Segment 1 2 3 2)]
                @ (draw_text sample_round_str (Segment 1 2 3 2) @ feed_text ''600'') # tail))))"
proof -
  have "valid_block sample_float (Skip (''LINE'' @ [newline]))"
    by (simp add: text_eval)
  then have v: "valid_drawing sample_float drawing_far sample_eof"
    by (simp add: valid_drawing_def drawing_far_def sample_entity_valid sample_eof_strip
        del: valid_block.simps)
  have segs: "block_segments sample_float drawing_far = [Segment 1 2 3 2]"
    by (simp add: drawing_far_def sample_entity_segment)
  from first_move_bridge [OF v segs, of "[]" sample_round_str "''600''"] v segs
  show ?thesis by simp
qed

text \<open>
  C6. A drawing with at least \<open>qty - 1\<close> entities, so in particular one with one entity
  more than \<open>qty\<close>: the read loop returns with the capacity error recorded, after the
  entity that fills the last slot and with all later entities unread, and the program
  written is the program of the first \<open>qty - 1\<close> segments.
\<close>

theorem capacity_error:
  assumes "valid_drawing pf bs eof" and "qty - 1 \<le> length (block_segments pf bs)"
  shows "\<exists>st bs2.
    read_loop pf (init_state (drawing_lines bs eof rest)) = Some (Inr st)
    \<and> error st = capacity_message \<and> linecount st = qty
    \<and> file_in st = drawing_lines bs2 eof rest
    \<and> length (block_segments pf bs2) + (qty - 1) = length (block_segments pf bs)
    \<and> dxf_program pf fmt (drawing_lines bs eof rest) fr
        = Some (Inr (capacity_message,
            unlines (header # program_moves fmt fr (0, 0) False
              (take (qty - 1) (block_segments pf bs)))))"
proof -
  from assms(1) have v: "list_all (valid_block pf) bs" by (simp add: valid_drawing_def)
  from assms(2) have full: "qty \<le> length (block_segments pf bs) + 1" by simp
  from read_loop_cut [OF v full, of "eof # rest"] obtain bs2
    where rd: "read_loop pf (init_state (drawing_lines bs eof rest))
        = Some (Inr (st_of (drawing_lines bs2 eof rest) ''EOF'' capacity_message
            (take (qty - 1) (block_segments pf bs))))"
      and n2: "length (block_segments pf bs2) + (qty - 1) = length (block_segments pf bs)"
    unfolding drawing_lines_def by blast
  from assms(2) qty_gt have lc: "length (take (qty - 1) (block_segments pf bs)) + 1 = qty"
    by simp
  from full have prog: "dxf_program pf fmt (drawing_lines bs eof rest) fr
      = Some (Inr (capacity_message,
          unlines (header # program_moves fmt fr (0, 0) False
            (take (qty - 1) (block_segments pf bs)))))"
    by (simp add: dxf_program_drawing [OF assms(1)])
  from rd n2 prog lc show ?thesis
    by (intro exI [of _ "st_of (drawing_lines bs2 eof rest) ''EOF'' capacity_message
          (take (qty - 1) (block_segments pf bs))"] exI [of _ bs2]) (simp del: length_take)
qed

theorem capacity_error_witness:
  "valid_drawing sample_float drawing_big sample_eof
   \<and> length (block_segments sample_float drawing_big) = qty + 1
   \<and> (\<exists>st bs2.
        read_loop sample_float (init_state (drawing_lines drawing_big sample_eof [])) = Some (Inr st)
        \<and> error st = capacity_message \<and> linecount st = qty
        \<and> file_in st = drawing_lines bs2 sample_eof []
        \<and> length (block_segments sample_float bs2) + (qty - 1)
            = length (block_segments sample_float drawing_big)
        \<and> dxf_program sample_float sample_round_str (drawing_lines drawing_big sample_eof []) ''600''
            = Some (Inr (capacity_message,
                unlines (header # program_moves sample_round_str ''600'' (0, 0) False
                  (take (qty - 1) (block_segments sample_float drawing_big))))))"
proof -
  have v: "valid_drawing sample_float drawing_big sample_eof"
    by (simp add: valid_drawing_def drawing_big_def sample_entity_valid sample_eof_strip
        list_all_iff)
  have n: "length (block_segments sample_float drawing_big) = qty + 1"
    by (simp add: drawing_big_def sample_entity_def block_segments_replicate qty_def)
  then have "qty - 1 \<le> length (block_segments sample_float drawing_big)" by simp
  from capacity_error [OF v this, of "[]" sample_round_str "''600''"] v n
  show ?thesis by blast
qed

lemma plain_texts:
  assumes "\<And>v. c \<notin> set (fmt v)" and "c \<notin> set ''G1 XY''"
  shows "c \<notin> set (bridge_text fmt s)" "c \<notin> set (draw_text fmt s)"
  using assms by (auto simp: bridge_text_def draw_text_def)

lemma take_all_segments:
  "length segs < qty \<Longrightarrow> take (qty - 1) segs = segs"
  by simp

lemma length_pairs: "length (concat (map (\<lambda>s. [f s, g s]) xs)) = 2 * length xs"
  by (induction xs) simp_all

text \<open>
  C1, as amended. A drawing of N entities, N at least 1 and below \<open>qty\<close>, in which every
  segment after the first starts where the one before ends: the program is the header,
  a bridging move if the first segment does not start at (0, 0), and the N draw moves.
  So it has N move lines when the first segment starts at (0, 0) and N + 1 otherwise,
  and the feed-rate annotation is on exactly one line, the first draw move.
\<close>

theorem chained_program:
  assumes "valid_drawing pf bs eof" and "block_segments pf bs = s # ss"
    and "length (s # ss) < qty"
    and "\<forall>i. 0 < i \<and> i < length (s # ss) \<longrightarrow>
      sx ((s # ss) ! i) = ex ((s # ss) ! (i - 1)) \<and> sy ((s # ss) ! i) = ey ((s # ss) ! (i - 1))"
    and "\<And>v. newline \<notin> set (fmt v)" and "\<And>v. CHR ''F'' \<notin> set (fmt v)"
    and "newline \<notin> set fr"
  shows "\<exists>err g.
    dxf_program pf fmt (drawing_lines bs eof rest) fr = Some (Inr (err, g))
    \<and> lines_of g = header # (if sx s \<noteq> 0 \<or> sy s \<noteq> 0 then [bridge_text fmt s] else [])
        @ (draw_text fmt s @ feed_text fr) # map (draw_text fmt) ss
    \<and> length (move_lines g)
        = (if sx s \<noteq> 0 \<or> sy s \<noteq> 0 then length (s # ss) + 1 else length (s # ss))
    \<and> filter (\<lambda>l. CHR ''F'' \<in> set l) (move_lines g) = [draw_text fmt s @ feed_text fr]"
proof -
  let ?b = "if sx s \<noteq> 0 \<or> sy s \<noteq> 0 then [bridge_text fmt s] else []"
  let ?ms = "?b @ (draw_text fmt s @ feed_text fr) # map (draw_text fmt) ss"
  let ?g = "unlines (header # ?ms)"
  have moves: "program_moves fmt fr (0, 0) False (s # ss) = ?ms"
    using moves_chained [OF assms(4), of fmt fr] by simp
  have prog: "dxf_program pf fmt (drawing_lines bs eof rest) fr
      = Some (Inr (if length (block_segments pf bs) + 1 < qty then [] else capacity_message, ?g))"
    unfolding dxf_program_drawing [OF assms(1)] assms(2) take_all_segments [OF assms(3)] moves ..
  have nl: "\<forall>l\<in>set (header # ?ms). newline \<notin> set l"
    using plain_texts [of newline fmt, OF assms(5)] assms(7)
    by (auto simp: header_def feed_text_def)
  have ls: "lines_of ?g = header # ?ms"
    by (rule lines_of_unlines [OF nl])
  have noF: "CHR ''F'' \<notin> set (bridge_text fmt t)" "CHR ''F'' \<notin> set (draw_text fmt t)" for t
    using plain_texts [of "CHR ''F''" fmt, OF assms(6)] by simp_all
  have fl: "filter (\<lambda>l. CHR ''F'' \<in> set l) (map (draw_text fmt) ss) = []"
    by (simp add: noF)
  have ml: "move_lines ?g = ?ms"
    by (simp only: move_lines_def ls list.sel)
  have cnt: "length (move_lines ?g)
      = (if sx s \<noteq> 0 \<or> sy s \<noteq> 0 then length (s # ss) + 1 else length (s # ss))"
    unfolding ml by simp
  have ann: "filter (\<lambda>l. CHR ''F'' \<in> set l) (move_lines ?g) = [draw_text fmt s @ feed_text fr]"
    unfolding ml by (simp add: fl noF feed_text_def)
  from prog ls cnt ann show ?thesis by blast
qed

theorem chained_program_witness:
  "valid_drawing sample_float drawing_chain2 sample_eof
   \<and> block_segments sample_float drawing_chain2 = [Segment 1 1 2 2, Segment 2 2 3 3]
   \<and> (\<exists>err g.
        dxf_program sample_float sample_round_str (drawing_lines drawing_chain2 sample_eof []) ''600''
          = Some (Inr (err, g))
        \<and> lines_of g = [''G90 G17 G21'', ''G1 X1.0 Y1.0'', ''G1 X2.0 Y2.0 F600'', ''G1 X3.0 Y3.0'']
        \<and> length (move_lines g) = 3
        \<and> filter (\<lambda>l. CHR ''F'' \<in> set l) (move_lines g) = [''G1 X2.0 Y2.0 F600''])"
proof -
  have v: "valid_drawing sample_float drawing_chain2 sample_eof"
    by (simp add: valid_drawing_def drawing_chain2_def sample_entity_valid sample_eof_strip)
  have segs: "block_segments sample_float drawing_chain2 = [Segment 1 1 2 2, Segment 2 2 3 3]"
    by (simp add: drawing_chain2_def sample_entity_segment)
  have n: "length [Segment 1 1 2 2, Segment 2 2 3 3 :: int segment] < qty"
    by (simp add: qty_def)
  have ch: "\<forall>i. 0 < i \<and> i < length [Segment 1 1 2 2, Segment 2 2 3 3 :: int segment] \<longrightarrow>
      sx ([Segment 1 1 2 2, Segment 2 2 3 3 :: int segment] ! i)
        = ex ([Segment 1 1 2 2, Segment 2 2 3 3] ! (i - 1))
      \<and> sy ([Segment 1 1 2 2, Segment 2 2 3 3 :: int segment] ! i)
        = ey ([Segment 1 1 2 2, Segment 2 2 3 3] ! (i - 1))"
    by (auto simp: less_Suc_eq)
  from chained_program [where fmt = sample_round_str and fr = "''600''" and rest = "[]",
      OF v segs n ch sample_round_str_plain]
    v segs
  show ?thesis
    by (simp add: header_def bridge_text_def draw_text_def feed_text_def sample_round_str_def
        numeral_3_eq_3)
qed

theorem chained_program_counterexample:
  "valid_drawing sample_float drawing_chain3 sample_eof
   \<and> block_segments sample_float drawing_chain3
       = [Segment 0 0 10 0, Segment 10 0 10 10, Segment 10 10 0 10]
   \<and> dxf_program sample_float sample_round_str (drawing_lines drawing_chain3 sample_eof []) ''600''
       = Some (Inr ([], unlines
           [''G90 G17 G21'', ''G1 X10.0 Y0.0 F600'', ''G1 X10.0 Y10.0'', ''G1 X0.0 Y10.0'']))
   \<and> move_lines (unlines
         [''G90 G17 G21'', ''G1 X10.0 Y0.0 F600'', ''G1 X10.0 Y10.0'', ''G1 X0.0 Y10.0''])
       = [''G1 X10.0 Y0.0 F600'', ''G1 X10.0 Y10.0'', ''G1 X0.0 Y10.0'']
   \<and> length (move_lines (unlines
         [''G90 G17 G21'', ''G1 X10.0 Y0.0 F600'', ''G1 X10.0 Y10.0'', ''G1 X0.0 Y10.0'']))
       \<noteq> length (block_segments sample_float drawing_chain3) + 1"
proof -
  have v: "valid_drawing sample_float drawing_chain3 sample_eof"
    by (simp add: valid_drawing_def drawing_chain3_def sample_entity_valid sample_eof_strip)
  have segs: "block_segments sample_float drawing_chain3
      = [Segment 0 0 10 0, Segment 10 0 10 10, Segment 10 10 0 10]"
    by (simp add: drawing_chain3_def sample_entity_segment)
  have prog: "dxf_program sample_float sample_round_str
        (drawing_lines drawing_chain3 sample_eof []) ''600''
      = Some (Inr ([], unlines
          [''G90 G17 G21'', ''G1 X10.0 Y0.0 F600'', ''G1 X10.0 Y10.0'', ''G1 X0.0 Y10.0'']))"
    unfolding dxf_program_drawing [OF v] segs
    by (simp add: qty_def header_def bridge_text_def draw_text_def feed_text_def
        sample_round_str_def)
  have ml: "move_lines (unlines
        [''G90 G17 G21'', ''G1 X10.0 Y0.0 F600'', ''G1 X10.0 Y10.0'', ''G1 X0.0 Y10.0''])
      = [''G1 X10.0 Y0.0 F600'', ''G1 X10.0 Y10.0'', ''G1 X0.0 Y10.0'']"
    by (simp add: move_lines_def lines_of_unlines)
  show ?thesis
    unfolding ml using v segs prog by simp
qed


lemma moves_all_bridged:
  assumes "segs \<noteq> [] \<longrightarrow> sx (segs ! 0) \<noteq> 0 \<or> sy (segs ! 0) \<noteq> 0"
    and "\<forall>i. 0 < i \<and> i < length segs \<longrightarrow>
      sx (segs ! i) \<noteq> ex (segs ! (i - 1)) \<or> sy (segs ! i) \<noteq> ey (segs ! (i - 1))"
  shows "program_moves fmt fr (0, 0) False segs
    = concat (map (\<lambda>s. [bridge_text fmt s, draw_text fmt s @ feed_text fr]) segs)"
proof (cases segs)
  case Nil
  then show ?thesis by simp
next
  case (Cons s ss)
  with assms(1) have "sx s \<noteq> 0 \<or> sy s \<noteq> 0" by simp
  moreover from assms(2) Cons have "program_moves fmt fr (ex s, ey s) True ss
      = concat (map (\<lambda>s. [bridge_text fmt s, draw_text fmt s @ feed_text fr]) ss)"
    by (intro moves_unchained) simp
  ultimately show ?thesis using Cons by auto
qed

text \<open>
  C2, as amended. A drawing of N entities, N below \<open>qty\<close>, in which no segment after the
  first starts where the one before ends, and whose first segment does not start at
  (0, 0): the program is the header line and then, for each segment in order, a bridging
  move and a draw move with the feed-rate annotation, 2N move lines in all.
\<close>

theorem unchained_program:
  assumes "valid_drawing pf bs eof" and "segs = block_segments pf bs" and "length segs < qty"
    and "segs \<noteq> [] \<longrightarrow> sx (segs ! 0) \<noteq> 0 \<or> sy (segs ! 0) \<noteq> 0"
    and "\<forall>i. 0 < i \<and> i < length segs \<longrightarrow>
      sx (segs ! i) \<noteq> ex (segs ! (i - 1)) \<or> sy (segs ! i) \<noteq> ey (segs ! (i - 1))"
    and "\<And>v. newline \<notin> set (fmt v)" and "newline \<notin> set fr"
  shows "\<exists>err g.
    dxf_program pf fmt (drawing_lines bs eof rest) fr = Some (Inr (err, g))
    \<and> lines_of g = header
        # concat (map (\<lambda>s. [bridge_text fmt s, draw_text fmt s @ feed_text fr]) segs)
    \<and> length (move_lines g) = 2 * length segs"
proof -
  let ?ms = "concat (map (\<lambda>s. [bridge_text fmt s, draw_text fmt s @ feed_text fr]) segs)"
  let ?g = "unlines (header # ?ms)"
  have moves: "program_moves fmt fr (0, 0) False segs = ?ms"
    by (rule moves_all_bridged [OF assms(4,5)])
  have prog: "dxf_program pf fmt (drawing_lines bs eof rest) fr
      = Some (Inr (if length (block_segments pf bs) + 1 < qty then [] else capacity_message, ?g))"
    unfolding dxf_program_drawing [OF assms(1)] assms(2) [symmetric]
      take_all_segments [OF assms(3)] moves ..
  have nl: "\<forall>l\<in>set (header # ?ms). newline \<notin> set l"
    using plain_texts [of newline fmt, OF assms(6)] assms(7)
    by (auto simp: header_def feed_text_def)
  have ls: "lines_of ?g = header # ?ms"
    by (rule lines_of_unlines [OF nl])
  have "length (move_lines ?g) = 2 * length segs"
    by (simp only: move_lines_def ls list.sel length_pairs)
  with prog ls show ?thesis by blast
qed

theorem unchained_program_witness:
  "valid_drawing sample_float drawing_apart sample_eof
   \<and> block_segments sample_float drawing_apart = [Segment 1 1 2 2, Segment 3 3 10 10]
   \<and> (\<exists>err g.
        dxf_program sample_float sample_round_str (drawing_lines drawing_apart sample_eof []) ''600''
          = Some (Inr (err, g))
        \<and> lines_of g = [''G90 G17 G21'', ''G1 X1.0 Y1.0'', ''G1 X2.0 Y2.0 F600'',
            ''G1 X3.0 Y3.0'', ''G1 X10.0 Y10.0 F600'']
        \<and> length (move_lines g) = 4)"
proof -
  have v: "valid_drawing sample_float drawing_apart sample_eof"
    by (simp add: valid_drawing_def drawing_apart_def sample_entity_valid sample_eof_strip)
  have segs: "[Segment 1 1 2 2, Segment 3 3 10 10] = block_segments sample_float drawing_apart"
    by (simp add: drawing_apart_def sample_entity_segment)
  have n: "length [Segment 1 1 2 2, Segment 3 3 10 10 :: int segment] < qty"
    by (simp add: qty_def)
  have first: "[Segment 1 1 2 2, Segment 3 3 10 10 :: int segment] \<noteq> [] \<longrightarrow>
      sx ([Segment 1 1 2 2, Segment 3 3 10 10 :: int segment] ! 0) \<noteq> 0
      \<or> sy ([Segment 1 1 2 2, Segment 3 3 10 10 :: int segment] ! 0) \<noteq> 0"
    by simp
  have apart: "\<forall>i. 0 < i \<and> i < length [Segment 1 1 2 2, Segment 3 3 10 10 :: int segment] \<longrightarrow>
      sx ([Segment 1 1 2 2, Segment 3 3 10 10 :: int segment] ! i)
        \<noteq> ex ([Segment 1 1 2 2, Segment 3 3 10 10] ! (i - 1))
      \<or> sy ([Segment 1 1 2 2, Segment 3 3 10 10 :: int segment] ! i)
        \<noteq> ey ([Segment 1 1 2 2, Segment 3 3 10 10] ! (i - 1))"
    by (auto simp: less_Suc_eq)
  from unchained_program [where fmt = sample_round_str and fr = "''600''" and rest = "[]",
      OF v segs n first apart sample_round_str_plain(1)] v segs [symmetric]
  show ?thesis
    by (simp add: header_def bridge_text_def draw_text_def feed_text_def sample_round_str_def)
qed

theorem unchained_program_counterexample:
  "valid_drawing sample_float drawing_origin sample_eof
   \<and> block_segments sample_float drawing_origin = [Segment 0 0 10 0]
   \<and> dxf_program sample_float sample_round_str (drawing_lines drawing_origin sample_eof []) ''600''
       = Some (Inr ([], unlines [''G90 G17 G21'', ''G1 X10.0 Y0.0 F600'']))
   \<and> move_lines (unlines [''G90 G17 G21'', ''G1 X10.0 Y0.0 F600'']) = [''G1 X10.0 Y0.0 F600'']
   \<and> length (move_lines (unlines [''G90 G17 G21'', ''G1 X10.0 Y0.0 F600'']))
       \<noteq> 2 * length (block_segments sample_float drawing_origin)"
proof -
  have v: "valid_drawing sample_float drawing_origin sample_eof"
    by (simp add: valid_drawing_def drawing_origin_def sample_entity_valid sample_eof_strip)
  have segs: "block_segments sample_float drawing_origin = [Segment 0 0 10 0]"
    by (simp add: drawing_origin_def sample_entity_segment)
  have prog: "dxf_program sample_float sample_round_str
        (drawing_lines drawing_origin sample_eof []) ''600''
      = Some (Inr ([], unlines [''G90 G17 G21'', ''G1 X10.0 Y0.0 F600'']))"
    unfolding dxf_program_drawing [OF v] segs
    by (simp add: qty_def header_def bridge_text_def draw_text_def feed_text_def
        sample_round_str_def)
  have ml: "move_lines (unlines [''G90 G17 G21'', ''G1 X10.0 Y0.0 F600''])
      = [''G1 X10.0 Y0.0 F600'']"
    by (simp add: move_lines_def lines_of_unlines)
  show ?thesis
    unfolding ml using v segs prog by simp
qed

lemma set_xs_all: "set (xs_all segs) = insert 0 (sx ` set segs \<union> ex ` set segs)"
  by (auto simp: xs_all_def)

lemma set_ys_all: "set (ys_all segs) = insert 0 (sy ` set segs \<union> ey ` set segs)"
  by (auto simp: ys_all_def)

lemma st_of_box:
  "xmin (st_of f t err segs) = Min (insert 0 (sx ` set segs \<union> ex ` set segs))"
  "xmax (st_of f t err segs) = Max (insert 0 (sx ` set segs \<union> ex ` set segs))"
  "ymin (st_of f t err segs) = Min (insert 0 (sy ` set segs \<union> ey ` set segs))"
  "ymax (st_of f t err segs) = Max (insert 0 (sy ` set segs \<union> ey ` set segs))"
  by (simp_all add: st_of_def st_cells_def set_xs_all set_ys_all)

text \<open>
  C3, as amended. For a drawing of fewer than \<open>qty\<close> entities, the bounding box the read
  loop ends with is the minimum and maximum over the start and end points of all
  segments together with the value 0 the four bounds start from; and a drawing with the
  same entities in another order ends with the same box.
\<close>

theorem bounding_box:
  assumes "valid_drawing pf bs eof" and "segs = block_segments pf bs" and "length segs < qty"
    and "valid_drawing pf bs' eof'" and "mset (block_segments pf bs') = mset segs"
  shows "\<exists>st st'.
    read_loop pf (init_state (drawing_lines bs eof rest)) = Some (Inr st)
    \<and> xmin st = Min (insert 0 (sx ` set segs \<union> ex ` set segs))
    \<and> xmax st = Max (insert 0 (sx ` set segs \<union> ex ` set segs))
    \<and> ymin st = Min (insert 0 (sy ` set segs \<union> ey ` set segs))
    \<and> ymax st = Max (insert 0 (sy ` set segs \<union> ey ` set segs))
    \<and> read_loop pf (init_state (drawing_lines bs' eof' rest')) = Some (Inr st')
    \<and> xmin st' = xmin st \<and> xmax st' = xmax st \<and> ymin st' = ymin st \<and> ymax st' = ymax st"
proof -
  from read_loop_drawing [OF assms(1), of rest] obtain fl err
    where rd: "read_loop pf (init_state (drawing_lines bs eof rest))
      = Some (Inr (st_of fl ''EOF'' err segs))"
    unfolding assms(2) [symmetric] take_all_segments [OF assms(3)] by blast
  from assms(5) have len: "length (block_segments pf bs') = length segs"
    by (metis size_mset)
  from assms(5) have sets: "set (block_segments pf bs') = set segs"
    by (rule mset_eq_setD)
  from len assms(3) have n': "length (block_segments pf bs') < qty" by simp
  from read_loop_drawing [OF assms(4), of rest'] obtain fl' err'
    where rd': "read_loop pf (init_state (drawing_lines bs' eof' rest'))
      = Some (Inr (st_of fl' ''EOF'' err' (block_segments pf bs')))"
    unfolding take_all_segments [OF n'] by blast
  from rd rd' show ?thesis
    by (intro exI [of _ "st_of fl ''EOF'' err segs"]
        exI [of _ "st_of fl' ''EOF'' err' (block_segments pf bs')"])
      (simp add: st_of_box sets)
qed

theorem bounding_box_witness:
  "valid_drawing sample_float drawing_apart sample_eof
   \<and> valid_drawing sample_float (rev drawing_apart) sample_eof
   \<and> mset (block_segments sample_float (rev drawing_apart))
       = mset (block_segments sample_float drawing_apart)
   \<and> (\<exists>st st'.
        read_loop sample_float (init_state (drawing_lines drawing_apart sample_eof [])) = Some (Inr st)
        \<and> xmin st = 0 \<and> xmax st = 10 \<and> ymin st = 0 \<and> ymax st = 10
        \<and> read_loop sample_float (init_state (drawing_lines (rev drawing_apart) sample_eof []))
            = Some (Inr st')
        \<and> xmin st' = xmin st \<and> xmax st' = xmax st \<and> ymin st' = ymin st \<and> ymax st' = ymax st)"
proof -
  have v: "valid_drawing sample_float drawing_apart sample_eof"
    by (simp add: valid_drawing_def drawing_apart_def sample_entity_valid sample_eof_strip)
  have v': "valid_drawing sample_float (rev drawing_apart) sample_eof"
    by (simp add: valid_drawing_def drawing_apart_def sample_entity_valid sample_eof_strip)
  have segs: "block_segments sample_float drawing_apart = [Segment 1 1 2 2, Segment 3 3 10 10]"
    by (simp add: drawing_apart_def sample_entity_segment)
  have segs': "block_segments sample_float (rev drawing_apart)
      = [Segment 3 3 10 10, Segment 1 1 2 2]"
    by (simp add: drawing_apart_def sample_entity_segment)
  have n: "length (block_segments sample_float drawing_apart) < qty"
    by (simp add: segs qty_def)
  have m: "mset (block_segments sample_float (rev drawing_apart))
      = mset (block_segments sample_float drawing_apart)"
    by (simp add: segs segs')
  from bounding_box [where rest = "[]" and rest' = "[]", OF v refl n v' m] v v' m
  show ?thesis by (simp add: segs)
qed

theorem bounding_box_counterexample:
  "valid_drawing sample_float drawing_far sample_eof
   \<and> block_segments sample_float drawing_far = [Segment 1 2 3 2]
   \<and> map_option (map_sum id xmin)
       (read_loop sample_float (init_state (drawing_lines drawing_far sample_eof [])))
       = Some (Inr 0)
   \<and> Min {sx (Segment 1 2 3 2), ex (Segment 1 2 3 2)} = (1::int)"
proof -
  have "valid_block sample_float (Skip (''LINE'' @ [newline]))"
    by (simp add: text_eval)
  then have v: "valid_drawing sample_float drawing_far sample_eof"
    by (simp add: valid_drawing_def drawing_far_def sample_entity_valid sample_eof_strip
        del: valid_block.simps)
  have segs: "block_segments sample_float drawing_far = [Segment 1 2 3 2]"
    by (simp add: drawing_far_def sample_entity_segment)
  from read_loop_drawing [OF v, of "[]"] obtain fl err
    where "read_loop sample_float (init_state (drawing_lines drawing_far sample_eof []))
      = Some (Inr (st_of fl ''EOF'' err [Segment 1 2 3 2]))"
    unfolding segs by (auto simp: qty_def)
  then have "map_option (map_sum id xmin)
       (read_loop sample_float (init_state (drawing_lines drawing_far sample_eof [])))
       = Some (Inr 0)"
    by (simp add: st_of_box)
  with v segs show ?thesis by simp
qed

section \<open>Claims on the session\<close>

lemma lower_append: "lower (a @ b) = lower a @ lower b"
  by (simp add: lower_def)

lemma gcode_cmd_passes:
  "passes_through g \<Longrightarrow> gcode_cmd env g fr s = Some (Inr (g, s))"
  by (simp add: gcode_cmd_def passes_through_def)

lemma send_command_passes:
  "passes_through g \<Longrightarrow> peer_up s \<Longrightarrow>
   send_command env g s = Some (Inr (s\<lparr>sent := sent s @ [g @ [newline]]\<rparr>))"
  by (simp add: send_command_def gcode_cmd_passes)

lemma sample_session_fields:
  "peer_up sample_session" "files sample_session = Map.empty"
  "writable sample_session p" "sent sample_session = []" "clock sample_session = 0"
  "record_log sample_session = []" "repeat sample_session = None"
  "feedrate sample_session = ''600''" "check sample_session = []"
  by (simp_all add: sample_session_def start_session_def)

lemma sample_session_readonly_fields:
  "peer_up sample_session_readonly" "files sample_session_readonly = Map.empty"
  "\<not> writable sample_session_readonly p" "feedrate sample_session_readonly = ''600''"
  by (simp_all add: sample_session_readonly_def start_session_def)

text \<open>
  C4, as amended. An input \<^verbatim>\<open>feedrate <value>\<close> that contains none of the keywords tested
  before it (\<^verbatim>\<open>delta\<close>, \<^verbatim>\<open>save\<close>) and none of the keywords of \<^verbatim>\<open>__gcode__\<close> is not a
  local effect only: with the peer connected, the input itself is sent to the peer in
  that cycle, newline-terminated. The repeat command, the telemetry log and the files are
  left as they were.
\<close>

theorem feedrate_input_sent:
  assumes "typed = ''feedrate '' @ v"
    and "\<not> contains ''delta'' (lower typed)" and "\<not> contains ''save'' (lower typed)"
    and "passes_through typed" and "peer_up s"
  shows "\<exists>s'. command_step env typed s = Some (Inr s')
    \<and> sent s' = sent s @ [typed @ [newline]]
    \<and> repeat s' = repeat s \<and> record_log s' = record_log s \<and> files s' = files s"
proof -
  from assms(1) have kw: "contains ''feedrate'' (lower typed)"
    by (simp add: lower_append) (simp add: lower_def lower_char_def)
  from assms(1) have ne: "typed \<noteq> []" "typed \<noteq> ''clear''" by auto
  have "interpret_input typed s = Inr (typed, s\<lparr>feedrate := drop 9 (feedrate s)\<rparr>)"
    using assms(2,3) kw ne by (simp add: interpret_input_def)
  then have "command_step env typed s
      = Some (Inr (s\<lparr>feedrate := drop 9 (feedrate s), sent := sent s @ [typed @ [newline]]\<rparr>))"
    using assms(4,5) by (simp add: command_step_def send_command_passes)
  then show ?thesis by simp
qed

theorem feedrate_input_sent_witness:
  "\<not> contains ''delta'' (lower ''feedrate 500'') \<and> \<not> contains ''save'' (lower ''feedrate 500'')
   \<and> passes_through ''feedrate 500'' \<and> peer_up sample_session
   \<and> (\<exists>s'. command_step sample_env ''feedrate 500'' sample_session = Some (Inr s')
        \<and> sent s' = [''feedrate 500'' @ [newline]]
        \<and> repeat s' = None \<and> record_log s' = [] \<and> files s' = Map.empty)"
proof -
  have a: "\<not> contains ''delta'' (lower ''feedrate 500'')"
    "\<not> contains ''save'' (lower ''feedrate 500'')"
    by (simp_all add: lower_def lower_char_def)
  have b: "passes_through ''feedrate 500''"
    by (simp add: passes_through_def lower_def lower_char_def)
  have c: "peer_up sample_session" by (rule sample_session_fields)
  have d: "''feedrate 500'' = ''feedrate '' @ ''500''" by simp
  from feedrate_input_sent [where env = sample_env, OF d a b c] a b c
  show ?thesis by (simp add: sample_session_fields)
qed

theorem feedrate_input_sent_counterexample:
  "map_option (map_sum id feedrate) (command_step sample_env ''feedrate 500'' sample_session)
     = Some (Inr [])
   \<and> map_option (map_sum id feedrate) (command_step sample_env ''feedrate 500'' sample_session)
     \<noteq> Some (Inr ''500'')
   \<and> map_option (map_sum id sent) (command_step sample_env ''feedrate 500'' sample_session)
     = Some (Inr [''feedrate 500'' @ [newline]])
   \<and> map_option (map_sum id sent) (command_step sample_env ''feedrate 500'' sample_session)
     \<noteq> Some (Inr (sent sample_session))"
  by (simp add: command_step_def interpret_input_def send_command_def gcode_cmd_def
      sample_session_def start_session_def lower_def lower_char_def)

text \<open>
  C5, as amended. An input \<^verbatim>\<open>delta <increment-expr>\<close> with none of the keywords of
  \<^verbatim>\<open>__gcode__\<close> stores \<^verbatim>\<open>G91 G0 <increment-expr>\<close> as the repeat command and, with the
  peer connected, the input itself is sent to the peer in that cycle. A later empty
  input while a repeat command with none of those keywords is stored sends the stored
  command, and leaves it stored.
\<close>

theorem delta_and_replay:
  shows "(typed = ''delta '' @ v \<and> passes_through typed \<and> peer_up s \<longrightarrow>
      command_step env typed s
        = Some (Inr (s\<lparr>repeat := Some (''G91 G0 '' @ v),
                       sent := sent s @ [typed @ [newline]]\<rparr>)))
    \<and> (repeat s = Some r \<and> passes_through r \<and> peer_up s \<longrightarrow>
      command_step env [] s = Some (Inr (s\<lparr>sent := sent s @ [r @ [newline]]\<rparr>)))"
proof (intro conjI impI)
  assume a: "typed = ''delta '' @ v \<and> passes_through typed \<and> peer_up s"
  then have t: "typed = ''delta '' @ v" and p: "passes_through typed" and u: "peer_up s"
    by blast+
  from t have kw: "contains ''delta'' (lower typed)"
    by (simp add: lower_append) (simp add: lower_def lower_char_def)
  have i: "interpret_input typed s = Inr (typed, s\<lparr>repeat := Some (''G91 G0 '' @ v)\<rparr>)"
    using kw t by (simp add: interpret_input_def)
  have "send_command env typed (s\<lparr>repeat := Some (''G91 G0 '' @ v)\<rparr>)
      = Some (Inr (s\<lparr>repeat := Some (''G91 G0 '' @ v),
                     sent := sent s @ [typed @ [newline]]\<rparr>))"
    using send_command_passes [OF p, of "s\<lparr>repeat := Some (''G91 G0 '' @ v)\<rparr>" env] u
    by simp
  then show "command_step env typed s
      = Some (Inr (s\<lparr>repeat := Some (''G91 G0 '' @ v),
                     sent := sent s @ [typed @ [newline]]\<rparr>))"
    by (simp add: command_step_def i)
next
  assume b: "repeat s = Some r \<and> passes_through r \<and> peer_up s"
  then have r: "repeat s = Some r" and p: "passes_through r" and u: "peer_up s"
    by blast+
  from r have i: "interpret_input [] s = Inr (r, s)"
    by (simp add: interpret_input_def lower_def)
  show "command_step env [] s = Some (Inr (s\<lparr>sent := sent s @ [r @ [newline]]\<rparr>))"
    by (simp add: command_step_def i send_command_passes [OF p u])
qed

theorem delta_and_replay_witness:
  "passes_through ''delta X1'' \<and> peer_up sample_session
   \<and> command_step sample_env ''delta X1'' sample_session
       = Some (Inr (sample_session
           \<lparr>repeat := Some ''G91 G0 X1'', sent := [''delta X1'' @ [newline]]\<rparr>))
   \<and> passes_through ''G91 G0 X1''
   \<and> command_step sample_env [] (sample_session\<lparr>repeat := Some ''G91 G0 X1''\<rparr>)
       = Some (Inr (sample_session
           \<lparr>repeat := Some ''G91 G0 X1'', sent := [''G91 G0 X1'' @ [newline]]\<rparr>))"
proof -
  have a: "passes_through ''delta X1''" "passes_through ''G91 G0 X1''"
    by (simp_all add: passes_through_def lower_def lower_char_def)
  have c: "peer_up sample_session"
    "peer_up (sample_session\<lparr>repeat := Some ''G91 G0 X1''\<rparr>)"
    by (simp_all add: sample_session_fields)
  have r: "repeat (sample_session\<lparr>repeat := Some ''G91 G0 X1''\<rparr>)
      = Some ''G91 G0 X1''" by simp
  from delta_and_replay [of "''delta X1''" "''X1''" sample_session sample_env
      "''G91 G0 X1''"] a c
  have one: "command_step sample_env ''delta X1'' sample_session
       = Some (Inr (sample_session
           \<lparr>repeat := Some ''G91 G0 X1'', sent := [''delta X1'' @ [newline]]\<rparr>))"
    by (simp add: sample_session_fields)
  from delta_and_replay [of "[]" "[]"
      "sample_session\<lparr>repeat := Some ''G91 G0 X1''\<rparr>" sample_env
      "''G91 G0 X1''"] a c r
  have two: "command_step sample_env [] (sample_session\<lparr>repeat := Some ''G91 G0 X1''\<rparr>)
       = Some (Inr (sample_session
           \<lparr>repeat := Some ''G91 G0 X1'', sent := [''G91 G0 X1'' @ [newline]]\<rparr>))"
    by (simp add: sample_session_fields)
  from a c one two show ?thesis by simp
qed

theorem delta_and_replay_counterexample:
  "map_option (map_sum id sent) (command_step sample_env ''delta X1'' sample_session)
     = Some (Inr [''delta X1'' @ [newline]])
   \<and> map_option (map_sum id sent) (command_step sample_env ''delta X1'' sample_session)
     \<noteq> Some (Inr (sent sample_session))
   \<and> map_option (map_sum id repeat) (command_step sample_env ''delta X1'' sample_session)
     = Some (Inr (Some ''G91 G0 X1''))"
  by (simp add: command_step_def interpret_input_def send_command_def gcode_cmd_def
      sample_session_def start_session_def lower_def lower_char_def)

text \<open>
  C8, as amended. For an input \<^verbatim>\<open>save <path>\<close> that does not contain \<^verbatim>\<open>delta\<close>: if the
  argument does not contain \<^verbatim>\<open>.txt\<close> anywhere, \<^verbatim>\<open>.txt\<close> is appended to it, and otherwise
  the argument is the path as it is (so \<^verbatim>\<open>save report.txt\<close> writes to \<^verbatim>\<open>report.txt\<close>). If
  that path can be opened for writing, the telemetry log is written to it and is itself
  left as it was, with every other variable of the session. If it cannot, nothing is
  written and the exception of the \<^verbatim>\<open>open\<close> ends the program.
\<close>

theorem save_path:
  assumes "typed = ''save '' @ p" and "\<not> contains ''delta'' (lower typed)"
  shows "interpret_input typed s
    = (let path = (if contains ''.txt'' p then p else p @ ''.txt'')
       in if writable s path
          then Inr (path, s\<lparr>files := (files s)(path \<mapsto> record_log s)\<rparr>)
          else Inl OSError)"
proof -
  from assms(1) have kw: "contains ''save'' (lower typed)"
    by (simp add: lower_append) (simp add: lower_def lower_char_def)
  from assms(1) have ne: "typed \<noteq> []" by simp
  from assms(1) have arg: "drop 5 typed = p" by simp
  show ?thesis
    using assms(2) kw ne by (simp add: interpret_input_def arg Let_def)
qed

theorem save_path_witness:
  "\<not> contains ''delta'' (lower ''save report'')
   \<and> interpret_input ''save report'' (sample_session\<lparr>record_log := ''1 2 3 1.5''\<rparr>)
       = Inr (''report.txt'',
          sample_session
            \<lparr>record_log := ''1 2 3 1.5'', files := [''report.txt'' \<mapsto> ''1 2 3 1.5'']\<rparr>)
   \<and> \<not> contains ''delta'' (lower ''save report.txt'')
   \<and> interpret_input ''save report.txt'' (sample_session\<lparr>record_log := ''1 2 3 1.5''\<rparr>)
       = Inr (''report.txt'',
          sample_session
            \<lparr>record_log := ''1 2 3 1.5'', files := [''report.txt'' \<mapsto> ''1 2 3 1.5'']\<rparr>)
   \<and> \<not> writable sample_session_readonly ''report.txt''
   \<and> interpret_input ''save report'' sample_session_readonly = Inl OSError"
proof -
  have a: "\<not> contains ''delta'' (lower ''save report'')"
    "\<not> contains ''delta'' (lower ''save report.txt'')"
    by (simp_all add: lower_def lower_char_def)
  have d: "''save report'' = ''save '' @ ''report''"
    "''save report.txt'' = ''save '' @ ''report.txt''" by simp_all
  have w: "\<not> writable sample_session_readonly ''report.txt''"
    by (rule sample_session_readonly_fields)
  from save_path [OF d(1) a(1), of "sample_session\<lparr>record_log := ''1 2 3 1.5''\<rparr>"]
  have one: "interpret_input ''save report'' (sample_session\<lparr>record_log := ''1 2 3 1.5''\<rparr>)
      = Inr (''report.txt'',
          sample_session
            \<lparr>record_log := ''1 2 3 1.5'', files := [''report.txt'' \<mapsto> ''1 2 3 1.5'']\<rparr>)"
    by (simp add: sample_session_fields Let_def)
  from save_path [OF d(2) a(2), of "sample_session\<lparr>record_log := ''1 2 3 1.5''\<rparr>"]
  have two: "interpret_input ''save report.txt''
        (sample_session\<lparr>record_log := ''1 2 3 1.5''\<rparr>)
      = Inr (''report.txt'',
          sample_session
            \<lparr>record_log := ''1 2 3 1.5'', files := [''report.txt'' \<mapsto> ''1 2 3 1.5'']\<rparr>)"
    by (simp add: sample_session_fields Let_def)
  from save_path [OF d(1) a(1), of sample_session_readonly]
  have three: "interpret_input ''save report'' sample_session_readonly = Inl OSError"
    by (simp add: sample_session_readonly_fields Let_def)
  from a w one two three show ?thesis by simp
qed

theorem save_path_counterexample:
  "\<not> ends_with ''.txt'' ''a.txt.bak''
   \<and> interpret_input ''save a.txt.bak'' sample_session
       = Inr (''a.txt.bak'', sample_session\<lparr>files := [''a.txt.bak'' \<mapsto> []]\<rparr>)
   \<and> interpret_input ''save a.txt.bak'' sample_session
       \<noteq> Inr (''a.txt.bak.txt'', sample_session\<lparr>files := [''a.txt.bak.txt'' \<mapsto> []]\<rparr>)"
  by (simp add: ends_with_def interpret_input_def sample_session_def start_session_def
      lower_def lower_char_def Let_def)

text \<open>
  C9, as amended. For an input \<^verbatim>\<open>scandxf <path>\<close> where the file at the path cannot be
  opened, that contains neither \<^verbatim>\<open>pulse x\<close> nor \<^verbatim>\<open>pulse y\<close>, and that is not taken by the
  \<^verbatim>\<open>save\<close> branch of the main loop (it does not contain \<^verbatim>\<open>save\<close>, or it contains
  \<^verbatim>\<open>delta\<close>), with the peer connected. The main loop hands the input as it is to
  \<^verbatim>\<open>__gcode__\<close>. If the error record can be opened for appending, the routine appends the
  error, stamped with the time, to the error record and returns \<^verbatim>\<open>G0\<close>, and \<^verbatim>\<open>G0\<close> is what
  the cycle sends to the peer. If it cannot, the exception of that \<^verbatim>\<open>open\<close> ends the
  program.
\<close>

theorem scandxf_missing_file:
  assumes "typed = ''scandxf '' @ p" and "files s p = None"
    and "\<not> contains ''pulse x'' (lower typed)" and "\<not> contains ''pulse y'' (lower typed)"
    and "\<not> contains ''save'' (lower typed) \<or> contains ''delta'' (lower typed)"
    and "peer_up s"
  shows "let s1 = (if contains ''delta'' (lower typed)
                   then s\<lparr>repeat := Some (''G91 G0 '' @ drop 6 typed)\<rparr>
                   else if contains ''feedrate'' (lower typed)
                   then s\<lparr>feedrate := drop 9 (feedrate s)\<rparr>
                   else s);
             logged = (files s)(''error_log.txt'' \<mapsto>
               (case files s ''error_log.txt'' of None \<Rightarrow> [] | Some c \<Rightarrow> c)
                 @ strftime_str env (clock s) @ exn_str env OSError @ [newline])
         in interpret_input typed s = Inr (typed, s1)
          \<and> (if writable s ''error_log.txt''
             then gcode_cmd env typed (feedrate s1) s1
                    = Some (Inr (''G0'', s1\<lparr>files := logged, clock := clock s + 1\<rparr>))
                \<and> command_step env typed s
                    = Some (Inr (s1\<lparr>files := logged, clock := clock s + 1,
                                    sent := sent s @ [''G0'' @ [newline]]\<rparr>))
             else gcode_cmd env typed (feedrate s1) s1 = Some (Inl OSError)
                \<and> command_step env typed s = Some (Inl OSError))"
proof -
  define s1 where "s1 = (if contains ''delta'' (lower typed)
                   then s\<lparr>repeat := Some (''G91 G0 '' @ drop 6 typed)\<rparr>
                   else if contains ''feedrate'' (lower typed)
                   then s\<lparr>feedrate := drop 9 (feedrate s)\<rparr>
                   else s)"
  from assms(1) have kw: "contains ''scandxf'' (lower typed)"
    by (simp add: lower_append) (simp add: lower_def lower_char_def)
  from assms(1) have ne: "typed \<noteq> []" "typed \<noteq> ''clear''" by auto
  from assms(1) have nh: "lower typed \<noteq> ''home''" "lower typed \<noteq> ''absolute''"
    by (simp_all add: lower_append) (simp_all add: lower_def lower_char_def)
  from assms(1) have arg: "drop 8 typed = p" by simp
  have i: "interpret_input typed s = Inr (typed, s1)"
    using assms(5) ne by (auto simp: interpret_input_def s1_def)
  have f: "files s1 = files s" "writable s1 = writable s" "peer_up s1 = peer_up s"
    "sent s1 = sent s" "clock s1 = clock s"
    by (simp_all add: s1_def)
  have g: "gcode_cmd env typed fr s1 = log_and_noop env OSError s1" for fr
    using assms(2,3,4) kw nh by (simp add: gcode_cmd_def arg f)
  show ?thesis
  proof (cases "writable s ''error_log.txt''")
    case True
    then have e: "error_log env OSError s1
        = Inr (s1\<lparr>files := (files s)(''error_log.txt'' \<mapsto>
               (case files s ''error_log.txt'' of None \<Rightarrow> [] | Some c \<Rightarrow> c)
                 @ strftime_str env (clock s) @ exn_str env OSError @ [newline]),
             clock := clock s + 1\<rparr>)"
      by (simp add: error_log_def Let_def f)
    have c: "command_step env typed s
        = Some (Inr (s1\<lparr>files := (files s)(''error_log.txt'' \<mapsto>
               (case files s ''error_log.txt'' of None \<Rightarrow> [] | Some c \<Rightarrow> c)
                 @ strftime_str env (clock s) @ exn_str env OSError @ [newline]),
             clock := clock s + 1, sent := sent s @ [''G0'' @ [newline]]\<rparr>))"
      using assms(6) by (simp add: command_step_def i send_command_def g log_and_noop_def e f)
    from True i c show ?thesis
      unfolding Let_def s1_def [symmetric] by (simp add: g log_and_noop_def e)
  next
    case False
    then have e: "error_log env err s1 = Inl OSError" for err
      by (simp add: error_log_def Let_def f)
    have c: "command_step env typed s = Some (Inl OSError)"
      by (simp add: command_step_def i send_command_def g log_and_noop_def e)
    from False i c show ?thesis
      unfolding Let_def s1_def [symmetric] by (simp add: g log_and_noop_def e)
  qed
qed

theorem scandxf_missing_file_witness:
  "files sample_session ''part.dxf'' = None
   \<and> \<not> contains ''pulse x'' (lower ''scandxf part.dxf'')
   \<and> \<not> contains ''pulse y'' (lower ''scandxf part.dxf'')
   \<and> \<not> contains ''save'' (lower ''scandxf part.dxf'')
   \<and> peer_up sample_session \<and> writable sample_session ''error_log.txt''
   \<and> interpret_input ''scandxf part.dxf'' sample_session
       = Inr (''scandxf part.dxf'', sample_session)
   \<and> gcode_cmd sample_env ''scandxf part.dxf'' ''600'' sample_session
       = Some (Inr (''G0'', sample_session
           \<lparr>files := [''error_log.txt'' \<mapsto> ''[01-13-20 09:00:00 AM]error'' @ [newline]],
            clock := 1\<rparr>))
   \<and> command_step sample_env ''scandxf part.dxf'' sample_session
       = Some (Inr (sample_session
           \<lparr>files := [''error_log.txt'' \<mapsto> ''[01-13-20 09:00:00 AM]error'' @ [newline]],
            clock := 1, sent := [''G0'' @ [newline]]\<rparr>))
   \<and> files sample_session_readonly ''part.dxf'' = None
   \<and> peer_up sample_session_readonly
   \<and> \<not> writable sample_session_readonly ''error_log.txt''
   \<and> command_step sample_env ''scandxf part.dxf'' sample_session_readonly
       = Some (Inl OSError)"
proof -
  have a: "files sample_session ''part.dxf'' = None"
    "files sample_session_readonly ''part.dxf'' = None"
    by (simp_all add: sample_session_fields sample_session_readonly_fields)
  have b: "\<not> contains ''pulse x'' (lower ''scandxf part.dxf'')"
    "\<not> contains ''pulse y'' (lower ''scandxf part.dxf'')"
    by (simp_all add: lower_def lower_char_def)
  have k: "\<not> contains ''save'' (lower ''scandxf part.dxf'')"
    "\<not> contains ''delta'' (lower ''scandxf part.dxf'')"
    "\<not> contains ''feedrate'' (lower ''scandxf part.dxf'')"
    by (simp_all add: lower_def lower_char_def)
  from k(1) have k': "\<not> contains ''save'' (lower ''scandxf part.dxf'')
      \<or> contains ''delta'' (lower ''scandxf part.dxf'')" by blast
  have c: "peer_up sample_session" "peer_up sample_session_readonly"
    by (simp_all add: sample_session_fields sample_session_readonly_fields)
  have w: "writable sample_session ''error_log.txt''"
    "\<not> writable sample_session_readonly ''error_log.txt''"
    by (simp_all add: sample_session_fields sample_session_readonly_fields)
  have d: "''scandxf part.dxf'' = ''scandxf '' @ ''part.dxf''" by simp
  have t: "strftime_str sample_env 0 = ''[01-13-20 09:00:00 AM]''"
    "exn_str sample_env OSError = ''error''"
    by (simp_all add: sample_env_def)
  note one = scandxf_missing_file [where env = sample_env, OF d a(1) b k' c(1),
      unfolded Let_def if_not_P [OF k(2)] if_not_P [OF k(3)] if_P [OF w(1)]]
  note two = scandxf_missing_file [where env = sample_env, OF d a(2) b k' c(2),
      unfolded Let_def if_not_P [OF k(2)] if_not_P [OF k(3)] if_not_P [OF w(2)]]
  from one have i: "interpret_input ''scandxf part.dxf'' sample_session
       = Inr (''scandxf part.dxf'', sample_session)" by blast
  from one t have g: "gcode_cmd sample_env ''scandxf part.dxf'' ''600'' sample_session
       = Some (Inr (''G0'', sample_session
           \<lparr>files := [''error_log.txt'' \<mapsto> ''[01-13-20 09:00:00 AM]error'' @ [newline]],
            clock := 1\<rparr>))"
    by (simp add: sample_session_fields)
  from one t have s: "command_step sample_env ''scandxf part.dxf'' sample_session
       = Some (Inr (sample_session
           \<lparr>files := [''error_log.txt'' \<mapsto> ''[01-13-20 09:00:00 AM]error'' @ [newline]],
            clock := 1, sent := [''G0'' @ [newline]]\<rparr>))"
    by (simp add: sample_session_fields)
  from two have r: "command_step sample_env ''scandxf part.dxf'' sample_session_readonly
       = Some (Inl OSError)" by blast
  from a b k(1) c w i g s r show ?thesis by blast
qed

theorem scandxf_missing_file_counterexample:
  "files sample_session ''pulse x.dxf'' = None
   \<and> command_step sample_env ''scandxf pulse x.dxf'' sample_session
       = Some (Inr (sample_session\<lparr>sent := [''G91 G1 X50 F pulse x.dxf'' @ [newline]]\<rparr>))
   \<and> files sample_session ''save.dxf'' = None
   \<and> command_step sample_env ''scandxf save.dxf'' sample_session
       = Some (Inr (sample_session
           \<lparr>files := [''xf save.dxf.txt'' \<mapsto> []],
            sent := [''xf save.dxf.txt'' @ [newline]]\<rparr>))
   \<and> files sample_session ''error_log.txt'' = None"
  by (simp add: command_step_def interpret_input_def send_command_def gcode_cmd_def
      sample_session_def start_session_def lower_def lower_char_def Let_def)










end
